theory Spec2Isabelle
  imports Main
begin

section \<open>Strings as Python has them\<close>

text \<open>
  A Python \<open>str\<close> is a sequence of Unicode code points and \<open>len\<close> counts code points,
  so a string is a list of code points (natural numbers). \<open>str_of\<close> writes an ASCII
  literal as such a list.
\<close>

type_synonym pystr = "nat list"

definition str_of :: "string \<Rightarrow> pystr" where
  "str_of s = map of_char s"

text \<open>
  The characters \<open>str.strip()\<close> and \<open>str.split()\<close> (both called without arguments)
  treat as whitespace, that is those for which \<open>str.isspace\<close> holds: U+0009..U+000D,
  U+001C..U+0020, U+0085, U+00A0, U+1680, U+2000..U+200A, U+2028, U+2029, U+202F, U+205F
  and U+3000.
\<close>

definition isspace :: "nat \<Rightarrow> bool" where
  "isspace c \<longleftrightarrow>
     (9 \<le> c \<and> c \<le> 13) \<or> (28 \<le> c \<and> c \<le> 32) \<or> c = 133 \<or> c = 160 \<or> c = 5760 \<or>
     (8192 \<le> c \<and> c \<le> 8202) \<or> c = 8232 \<or> c = 8233 \<or> c = 8239 \<or> c = 8287 \<or> c = 12288"

text \<open>\<open>s.strip()\<close>: leading and trailing whitespace removed.\<close>

definition strip :: "pystr \<Rightarrow> pystr" where
  "strip s = rev (dropWhile isspace (rev (dropWhile isspace s)))"

text \<open>
  \<open>s.split()\<close>: the maximal runs of non-whitespace characters, in order; never an empty
  word. \<open>split_from w s\<close> scans \<open>s\<close> with \<open>w\<close> the word read so far.
\<close>

fun split_from :: "pystr \<Rightarrow> pystr \<Rightarrow> pystr list" where
  "split_from w [] = (if w = [] then [] else [w])"
| "split_from w (c # cs) =
     (if isspace c then (if w = [] then split_from [] cs else w # split_from [] cs)
      else split_from (w @ [c]) cs)"

definition split :: "pystr \<Rightarrow> pystr list" where
  "split s = split_from [] s"

text \<open>\<open>sep.join(ws)\<close>.\<close>

fun join :: "pystr \<Rightarrow> pystr list \<Rightarrow> pystr" where
  "join sep [] = []"
| "join sep [w] = w"
| "join sep (w # v # ws) = w @ sep @ join sep (v # ws)"

text \<open>
  \<open>s[i:j]\<close> with integer bounds and step 1: a negative bound counts from the end, and
  both bounds are clamped to \<open>0..len(s)\<close>; a slice never raises.
\<close>

definition slice_bound :: "pystr \<Rightarrow> int \<Rightarrow> nat" where
  "slice_bound s i = (if i < 0 then nat (max 0 (int (length s) + i)) else min (length s) (nat i))"

definition slice :: "pystr \<Rightarrow> int \<Rightarrow> int \<Rightarrow> pystr" where
  "slice s i j = take (slice_bound s j - slice_bound s i) (drop (slice_bound s i) s)"

section \<open>The context of a match\<close>

text \<open>
  From \<open>search_keywords_in_text\<close> (the same lines in \<open>tool.py\<close>, \<open>pdf_miner_fixed.py\<close>
  and \<open>manual_pdf_analyzer.py\<close>), for a match with span \<open>(s, e)\<close>:
  \<^verbatim>\<open>
  start = max(0, match.start() - 300)
  end = min(len(text), match.end() + 300)
  context = text[start:end].strip()
  context = ' '.join(context.split())
  \<close>
\<close>

definition context_start :: "nat \<Rightarrow> int" where
  "context_start s = max 0 (int s - 300)"

definition context_end :: "pystr \<Rightarrow> nat \<Rightarrow> int" where
  "context_end text e = min (int (length text)) (int e + 300)"

definition context_window :: "pystr \<Rightarrow> nat \<Rightarrow> nat \<Rightarrow> pystr" where
  "context_window text s e = slice text (context_start s) (context_end text e)"

definition context_of :: "pystr \<Rightarrow> nat \<Rightarrow> nat \<Rightarrow> pystr" where
  "context_of text s e = join [32] (split (strip (context_window text s e)))"

text \<open>\<open>match.group()\<close>: the matched text \<open>text[s:e]\<close>.\<close>

definition match_group :: "pystr \<Rightarrow> nat \<Rightarrow> nat \<Rightarrow> pystr" where
  "match_group text s e = slice text (int s) (int e)"

text \<open>Whether a string holds two space characters (U+0020) in a row.\<close>

fun has_space_run :: "pystr \<Rightarrow> bool" where
  "has_space_run (a # b # cs) = ((a = 32 \<and> b = 32) \<or> has_space_run (b # cs))"
| "has_space_run _ = False"

text \<open>
  The window as the specification words it, to compare with \<open>context_window\<close>: the 300
  characters before the match span \<open>(s, e)\<close>, or all of them when there are fewer, then
  the characters of the span, then the 300 characters after it, or all of them when there
  are fewer.
\<close>

definition spec_window :: "pystr \<Rightarrow> nat \<Rightarrow> nat \<Rightarrow> pystr" where
  "spec_window text s e =
     drop (s - 300) (take s text) @ take (e - s) (drop s text) @ take 300 (drop e text)"

text \<open>
  Two pages to run the context on: a short one with runs of whitespace around the match
  \<open>Hamm\<close> at offsets 9 to 13, and the page of the specification's test,
  \<open>"AAAA" + "X"*290 + "HAMM" + "Y"*290 + "BBBB"\<close>, with the match at offsets 294 to 298.
\<close>

definition short_page :: pystr where
  "short_page = str_of ''see  Mr. Hamm'' @ [10, 9] @ str_of ''today ''"

definition spec_example :: pystr where
  "spec_example =
     str_of ''AAAA'' @ replicate 290 88 @ str_of ''HAMM'' @ replicate 290 89 @ str_of ''BBBB''"

section \<open>Exceptions\<close>

text \<open>
  The exceptions the modelled code can meet. A computation that may raise returns
  \<open>exn + 'a\<close>, with \<open>Inl\<close> the exception raised.
\<close>

datatype exn =
  Re_error              \<comment> \<open>\<open>re.error\<close>: the pattern is not a regular expression\<close>
  | HTTP_error nat      \<comment> \<open>\<open>requests.HTTPError\<close> from \<open>raise_for_status\<close>, with the status\<close>
  | Connection_error    \<comment> \<open>a transport-level failure: timeout, reset, broken stream\<close>
  | OS_error            \<comment> \<open>the file cannot be opened\<close>
  | Pdf_error           \<comment> \<open>any exception of a PDF or OCR library\<close>
  | Key_error           \<comment> \<open>a dictionary has no such key\<close>

section \<open>The keyword classification engine\<close>

subsection \<open>The regular-expression library\<close>

text \<open>
  \<open>re.finditer(pattern, text, re.IGNORECASE | re.DOTALL)\<close> belongs to Python's standard
  library, not to the repository, so the library is a parameter of the model: whether a
  pattern compiles (\<open>re\<close> compiles the pattern before it looks at the text, and raises
  \<open>re.error\<close> otherwise), and the spans \<open>(match.start(), match.end())\<close> of the matches in
  a text, in the order \<open>finditer\<close> yields them.
\<close>

type_synonym span = "nat \<times> nat"

record regex_engine =
  compiles :: "pystr \<Rightarrow> bool"
  finds :: "pystr \<Rightarrow> pystr \<Rightarrow> span list"

definition re_finditer :: "regex_engine \<Rightarrow> pystr \<Rightarrow> pystr \<Rightarrow> exn + span list" where
  "re_finditer eng pattern txt =
     (if compiles eng pattern then Inr (finds eng pattern txt) else Inl Re_error)"

subsection \<open>Catalog, document reference, finding\<close>

text \<open>
  \<open>self.keywords\<close> is a dictionary from tier name to \<open>{'terms': [...], 'color': ...}\<close>;
  a Python dictionary iterates in insertion order, so the catalog is an association list.
  In \<open>manual_pdf_analyzer.py\<close> a tier maps to its list of patterns directly.
\<close>

record tier_data =
  terms :: "pystr list"
  color :: pystr

type_synonym catalog = "(pystr \<times> tier_data) list"

type_synonym manual_catalog = "(pystr \<times> pystr list) list"

text \<open>
  The dictionary \<open>extract_pdf_links\<close> builds for a link, with keys \<open>'url'\<close>, \<open>'text'\<close>,
  \<open>'date_str'\<close> and \<open>'filename'\<close>.
\<close>

record pdf_info =
  url :: pystr
  link_text :: pystr
  date_str :: pystr
  filename :: pystr

text \<open>
  The dictionary appended for a match, with keys \<open>'committee'\<close>, \<open>'pdf_filename'\<close>,
  \<open>'pdf_date'\<close>, \<open>'page'\<close>, \<open>'priority'\<close>, \<open>'keyword_pattern'\<close>, \<open>'matched_text'\<close>,
  \<open>'context'\<close> and \<open>'url'\<close>.
\<close>

record finding =
  f_committee :: pystr
  f_pdf_filename :: pystr
  f_pdf_date :: pystr
  f_page :: nat
  f_priority :: pystr
  f_keyword_pattern :: pystr
  f_matched_text :: pystr
  f_context :: pystr
  f_url :: pystr

text \<open>
  The dictionary of \<open>ManualPDFAnalyzer.search_keywords_in_text\<close>, with keys
  \<open>'pdf_filename'\<close>, \<open>'page'\<close>, \<open>'priority'\<close>, \<open>'keyword'\<close>, \<open>'matched_text'\<close> and \<open>'context'\<close>.
\<close>

record manual_finding =
  m_pdf_filename :: pystr
  m_page :: nat
  m_priority :: pystr
  m_keyword :: pystr
  m_matched_text :: pystr
  m_context :: pystr

subsection \<open>The miner object\<close>

text \<open>
  The attributes of a \<open>DeKalbPDFMiner\<close> the modelled methods read or write. Its
  \<open>requests.Session\<close> acts on the outside world only: what it does is recorded in the
  trace of the world (section on the fetch engine).
\<close>

record committee_info =
  name :: pystr
  main_url :: pystr
  archive_url :: pystr

record miner =
  base_dir :: pystr
  committees :: "(pystr \<times> committee_info) list"
  self_keywords :: catalog
  results :: "finding list"
  pdf_cache :: "(pystr \<times> pystr) list"

text \<open>
  \<open>DeKalbPDFMiner.__init__\<close>. The two dictionary literals it assigns to
  \<open>self.committees\<close> and \<open>self.keywords\<close> are parameters here, so that a property can
  speak about every catalog (the field \<open>self_keywords\<close> is \<open>self.keywords\<close>). The
  constructor stores them as they are: it compiles no pattern and has no failing branch.
\<close>

definition init_miner :: "(pystr \<times> committee_info) list \<Rightarrow> catalog \<Rightarrow> pystr \<Rightarrow> miner" where
  "init_miner the_committees the_keywords dir =
     \<lparr>base_dir = dir, committees = the_committees, self_keywords = the_keywords,
      results = [], pdf_cache = []\<rparr>"

subsection \<open>Scanning a page\<close>

text \<open>
  \<^verbatim>\<open>
  matches = []
  for priority, priority_data in self.keywords.items():
      for pattern in priority_data['terms']:
          for match in re.finditer(pattern, text, re.IGNORECASE | re.DOTALL):
              ... matches.append({...})
  return matches
  \<close>
  The three nested loops, with \<open>matches\<close> the list built so far, \<open>get_terms\<close> the
  patterns of a tier (\<open>priority_data['terms']\<close>, or the tier's value itself in
  \<open>manual_pdf_analyzer.py\<close>) and \<open>mk priority pattern m\<close> the dictionary appended for a
  match. An invalid pattern raises out of the loops and the list is lost.
\<close>

fun scan_terms ::
  "regex_engine \<Rightarrow> pystr \<Rightarrow> (pystr \<Rightarrow> span \<Rightarrow> 'f) \<Rightarrow> pystr list \<Rightarrow> 'f list \<Rightarrow> exn + 'f list" where
  "scan_terms eng txt mk [] matches = Inr matches"
| "scan_terms eng txt mk (pattern # rest) matches =
     (case re_finditer eng pattern txt of
        Inl e \<Rightarrow> Inl e
      | Inr ms \<Rightarrow> scan_terms eng txt mk rest (matches @ map (mk pattern) ms))"

fun scan_tiers ::
  "regex_engine \<Rightarrow> pystr \<Rightarrow> ('d \<Rightarrow> pystr list) \<Rightarrow> (pystr \<Rightarrow> pystr \<Rightarrow> span \<Rightarrow> 'f) \<Rightarrow>
   (pystr \<times> 'd) list \<Rightarrow> 'f list \<Rightarrow> exn + 'f list" where
  "scan_tiers eng txt get_terms mk [] matches = Inr matches"
| "scan_tiers eng txt get_terms mk ((priority, priority_data) # rest) matches =
     (case scan_terms eng txt (mk priority) (get_terms priority_data) matches of
        Inl e \<Rightarrow> Inl e
      | Inr matches' \<Rightarrow> scan_tiers eng txt get_terms mk rest matches')"

definition new_match ::
  "pystr \<Rightarrow> nat \<Rightarrow> pdf_info \<Rightarrow> pystr \<Rightarrow> pystr \<Rightarrow> pystr \<Rightarrow> span \<Rightarrow> finding" where
  "new_match txt page_num info committee priority pattern m =
     \<lparr>f_committee = committee, f_pdf_filename = filename info, f_pdf_date = date_str info,
      f_page = page_num, f_priority = priority, f_keyword_pattern = pattern,
      f_matched_text = match_group txt (fst m) (snd m),
      f_context = context_of txt (fst m) (snd m), f_url = url info\<rparr>"

text \<open>\<open>DeKalbPDFMiner.search_keywords_in_text\<close> (\<open>tool.py\<close> and \<open>pdf_miner_fixed.py\<close>).\<close>

definition search_keywords_in_text ::
  "regex_engine \<Rightarrow> miner \<Rightarrow> pystr \<Rightarrow> nat \<Rightarrow> pdf_info \<Rightarrow> pystr \<Rightarrow> exn + finding list" where
  "search_keywords_in_text eng self txt page_num info committee =
     scan_tiers eng txt terms (new_match txt page_num info committee) (self_keywords self) []"

definition manual_match :: "pystr \<Rightarrow> nat \<Rightarrow> pystr \<Rightarrow> pystr \<Rightarrow> pystr \<Rightarrow> span \<Rightarrow> manual_finding" where
  "manual_match txt page_num pdf_name priority pattern m =
     \<lparr>m_pdf_filename = pdf_name, m_page = page_num, m_priority = priority, m_keyword = pattern,
      m_matched_text = match_group txt (fst m) (snd m),
      m_context = context_of txt (fst m) (snd m)\<rparr>"

text \<open>\<open>ManualPDFAnalyzer.search_keywords_in_text\<close>.\<close>

definition manual_search_keywords_in_text ::
  "regex_engine \<Rightarrow> manual_catalog \<Rightarrow> pystr \<Rightarrow> nat \<Rightarrow> pystr \<Rightarrow> exn + manual_finding list" where
  "manual_search_keywords_in_text eng kws txt page_num pdf_name =
     scan_tiers eng txt (\<lambda>patterns. patterns) (manual_match txt page_num pdf_name) kws []"

text \<open>
  The match occurrences of a page, as the specification orders them: tier by tier in
  catalog order, pattern by pattern within the tier, and for a pattern its matches as the
  library reports them. An occurrence records the index and name of the tier, the index
  of the pattern in the tier, the pattern and the span.
\<close>

record occurrence =
  tier_index :: nat
  tier_name :: pystr
  pattern_index :: nat
  pattern_of :: pystr
  span_of :: span

definition pattern_occurrences ::
  "regex_engine \<Rightarrow> pystr \<Rightarrow> nat \<Rightarrow> pystr \<Rightarrow> nat \<times> pystr \<Rightarrow> occurrence list" where
  "pattern_occurrences eng txt i priority jp =
     map (\<lambda>m. \<lparr>tier_index = i, tier_name = priority, pattern_index = fst jp,
                pattern_of = snd jp, span_of = m\<rparr>)
       (finds eng (snd jp) txt)"

definition tier_occurrences ::
  "regex_engine \<Rightarrow> pystr \<Rightarrow> ('d \<Rightarrow> pystr list) \<Rightarrow> nat \<times> pystr \<times> 'd \<Rightarrow> occurrence list" where
  "tier_occurrences eng txt get_terms it =
     concat (map (pattern_occurrences eng txt (fst it) (fst (snd it)))
               (enumerate 0 (get_terms (snd (snd it)))))"

definition occurrences ::
  "regex_engine \<Rightarrow> pystr \<Rightarrow> ('d \<Rightarrow> pystr list) \<Rightarrow> (pystr \<times> 'd) list \<Rightarrow> occurrence list" where
  "occurrences eng txt get_terms cat =
     concat (map (tier_occurrences eng txt get_terms) (enumerate 0 cat))"

text \<open>The order of the specification on occurrences: tier, then pattern, then start offset.\<close>

definition occurrence_le :: "occurrence \<Rightarrow> occurrence \<Rightarrow> bool" where
  "occurrence_le a b \<longleftrightarrow>
     tier_index a < tier_index b \<or>
     (tier_index a = tier_index b \<and>
       (pattern_index a < pattern_index b \<or>
        (pattern_index a = pattern_index b \<and> fst (span_of a) \<le> fst (span_of b))))"

text \<open>
  Whether, on this page, the library reports the matches of every pattern of the catalog
  by ascending start offset (\<open>re.finditer\<close> scans the text from left to right).
\<close>

definition reports_by_start ::
  "regex_engine \<Rightarrow> pystr \<Rightarrow> ('d \<Rightarrow> pystr list) \<Rightarrow> (pystr \<times> 'd) list \<Rightarrow> bool" where
  "reports_by_start eng txt get_terms cat =
     list_all (\<lambda>(priority, d).
        list_all (\<lambda>p. sorted (map fst (finds eng p txt))) (get_terms d)) cat"

text \<open>
  Whether, on this page, every span the library reports for a pattern of the catalog lies
  inside the page: \<open>0 \<le> match.start() \<le> match.end() \<le> len(text)\<close>.
\<close>

definition spans_inside ::
  "regex_engine \<Rightarrow> pystr \<Rightarrow> ('d \<Rightarrow> pystr list) \<Rightarrow> (pystr \<times> 'd) list \<Rightarrow> bool" where
  "spans_inside eng txt get_terms cat =
     list_all (\<lambda>(priority, d).
        list_all (\<lambda>p. list_all (\<lambda>m. fst m \<le> snd m \<and> snd m \<le> length txt) (finds eng p txt))
          (get_terms d)) cat"

text \<open>Whether every pattern of a catalog compiles.\<close>

definition all_compile :: "regex_engine \<Rightarrow> ('d \<Rightarrow> pystr list) \<Rightarrow> (pystr \<times> 'd) list \<Rightarrow> bool" where
  "all_compile eng get_terms cat =
     list_all (\<lambda>(priority, d). list_all (compiles eng) (get_terms d)) cat"

subsection \<open>A literal engine for concrete examples\<close>

text \<open>
  To run the model on a concrete page the library parameter needs a value. This engine
  covers the literal fragment only: it accepts the non-empty patterns made of ASCII
  letters, digits and spaces, which \<open>re\<close> (with \<open>re.IGNORECASE\<close>, on ASCII text) matches
  letter by letter ignoring case, scanning left to right and resuming after the end of a
  match; it rejects every other pattern. It agrees with \<open>re\<close> on the pattern \<open>(\<close>, which
  \<open>re\<close> refuses to compile (missing closing parenthesis), and makes no statement about
  other patterns with metacharacters.
\<close>

definition lower :: "nat \<Rightarrow> nat" where
  "lower c = (if 65 \<le> c \<and> c \<le> 90 then c + 32 else c)"

definition plain_char :: "nat \<Rightarrow> bool" where
  "plain_char c \<longleftrightarrow> (48 \<le> c \<and> c \<le> 57) \<or> (65 \<le> c \<and> c \<le> 90) \<or> (97 \<le> c \<and> c \<le> 122) \<or> c = 32"

fun starts_with_ci :: "pystr \<Rightarrow> pystr \<Rightarrow> bool" where
  "starts_with_ci [] t = True"
| "starts_with_ci (p # ps) [] = False"
| "starts_with_ci (p # ps) (c # cs) = (lower p = lower c \<and> starts_with_ci ps cs)"

text \<open>
  \<open>literal_scan p t pos skip\<close>: the matches of \<open>p\<close> in the rest \<open>t\<close> of the text, which
  starts at offset \<open>pos\<close>; the next \<open>skip\<close> characters belong to the previous match.
\<close>

fun literal_scan :: "pystr \<Rightarrow> pystr \<Rightarrow> nat \<Rightarrow> nat \<Rightarrow> span list" where
  "literal_scan p [] pos skip = []"
| "literal_scan p (c # cs) pos skip =
     (if 0 < skip then literal_scan p cs (Suc pos) (skip - 1)
      else if starts_with_ci p (c # cs)
        then (pos, pos + length p) # literal_scan p cs (Suc pos) (length p - 1)
      else literal_scan p cs (Suc pos) 0)"

definition literal_engine :: regex_engine where
  "literal_engine =
     \<lparr>compiles = (\<lambda>p. p \<noteq> [] \<and> list_all plain_char p),
      finds = (\<lambda>p t. literal_scan p t 0 0)\<rparr>"

subsection \<open>A concrete page\<close>

definition example_info :: pdf_info where
  "example_info = \<lparr>url = str_of ''https://dekalbcounty.org/docs/minutes-01-05-2024.pdf'',
     link_text = str_of ''Jan 5 Minutes'', date_str = str_of ''01-05-2024'',
     filename = str_of ''minutes-01-05-2024.pdf''\<rparr>"

definition example_catalog :: catalog where
  "example_catalog =
     [(str_of ''priority_1'',
        \<lparr>terms = [str_of ''Hamm'', str_of ''ethics training''], color = str_of ''FF0000''\<rparr>),
      (str_of ''priority_2'', \<lparr>terms = [str_of ''hamm''], color = str_of ''FFA500''\<rparr>)]"

definition example_page :: pystr where
  "example_page = str_of ''Hamm met hamm and HAMM about ethics training''"

definition example_miner :: miner where
  "example_miner = init_miner [] example_catalog (str_of ''dekalb_pdfs'')"

definition broken_catalog :: catalog where
  "broken_catalog =
     [(str_of ''priority_1'', \<lparr>terms = [str_of ''Hamm'', str_of ''(''], color = str_of ''FF0000''\<rparr>)]"

definition example_manual_catalog :: manual_catalog where
  "example_manual_catalog =
     [(str_of ''priority_1'', [str_of ''Hamm'', str_of ''ethics training'']),
      (str_of ''priority_2'', [str_of ''hamm''])]"

text \<open>
  A page on which the window is clipped on both sides. \<open>Hamm\<close> stands at offsets 310 to
  314; the ten letters \<open>A\<close> at the start and the ten letters \<open>B\<close> at the end are more than
  300 characters away from it, and \<open>long_window\<close>, the 604 characters in between, begins
  and ends with a blank and has two runs of whitespace around the match.
\<close>

definition long_window :: pystr where
  "long_window =
     [32] @ replicate 297 120 @ [32, 32] @ str_of ''Hamm'' @ [10, 9] @ replicate 297 121 @ [32]"

definition long_page :: pystr where
  "long_page = replicate 10 65 @ long_window @ replicate 10 66"

definition long_context :: pystr where
  "long_context = replicate 297 120 @ [32] @ str_of ''Hamm'' @ [32] @ replicate 297 121"

section \<open>The extraction pipeline\<close>

text \<open>
  The PDF libraries (\<open>pdfplumber\<close>, \<open>PyPDF2\<close>, \<open>pdf2image\<close> with \<open>pytesseract\<close>) are not
  part of the repository. What the code sees of a file is, for each library, whether
  opening the document raises and, if it does not, for each page in order the outcome of
  \<open>page.extract_text()\<close> (of \<open>pytesseract.image_to_string(image)\<close> for OCR): an exception,
  \<open>None\<close>, or a string.
\<close>

type_synonym page_text = "exn + pystr option"

type_synonym reader = "exn + page_text list"

record pdf_file =
  pdfplumber_pages :: reader
  pypdf2_pages :: reader
  ocr_pages :: reader

datatype strategy = Pdfplumber | PyPDF2 | OCR

text \<open>
  What an extraction does besides returning pages: the libraries it invokes, the messages
  it logs (\<open>logger.error\<close> or \<open>print\<close> of an exception, \<open>logger.info\<close>) and the warning
  \<open>manual_pdf_analyzer.py\<close> prints for a page it could not read.
\<close>

datatype extraction_event = Invoked strategy | Logged_error exn | Logged_info | Warned nat

text \<open>
  \<^verbatim>\<open>
  if text and len(text.strip()) > 50:
      text_pages.append((i, text))
  \<close>
\<close>

definition retain :: "nat \<Rightarrow> pystr option \<Rightarrow> (nat \<times> pystr) list \<Rightarrow> (nat \<times> pystr) list" where
  "retain i t text_pages =
     (case t of
        None \<Rightarrow> text_pages
      | Some s \<Rightarrow> if s \<noteq> [] \<and> 50 < length (strip s) then text_pages @ [(i, s)] else text_pages)"

text \<open>
  \<open>for i, page in enumerate(pages, i): text = page.extract_text(); ...\<close> with no handler
  inside the loop, as in \<open>tool.py\<close> and \<open>pdf_miner_fixed.py\<close>: the first page that raises
  ends the loop. The result is \<open>text_pages\<close> as the loop leaves it and the exception that
  escaped, if any.
\<close>

fun extract_pages ::
  "page_text list \<Rightarrow> nat \<Rightarrow> (nat \<times> pystr) list \<Rightarrow> (nat \<times> pystr) list \<times> exn option" where
  "extract_pages [] i text_pages = (text_pages, None)"
| "extract_pages (Inl e # pages) i text_pages = (text_pages, Some e)"
| "extract_pages (Inr t # pages) i text_pages = extract_pages pages (Suc i) (retain i t text_pages)"

text \<open>\<open>DeKalbPDFMiner.ocr_pdf\<close> (\<open>tool.py\<close>), with its own \<open>try\<close> around the whole body.\<close>

definition ocr_pdf :: "pdf_file \<Rightarrow> (nat \<times> pystr) list \<times> extraction_event list" where
  "ocr_pdf f =
     (case ocr_pages f of
        Inl e \<Rightarrow> ([], [Invoked OCR, Logged_error e])
      | Inr images \<Rightarrow>
          (case extract_pages images 1 [] of
             (text_pages, Some e) \<Rightarrow> (text_pages, [Invoked OCR, Logged_error e])
           | (text_pages, None) \<Rightarrow> (text_pages, [Invoked OCR, Logged_info])))"

text \<open>
  \<open>DeKalbPDFMiner.extract_text_from_pdf\<close> of \<open>tool.py\<close>: one \<open>try\<close> around the three
  strategies, so an exception anywhere ends the extraction with \<open>text_pages\<close> as it is.
\<close>

definition extract_text_from_pdf :: "pdf_file \<Rightarrow> (nat \<times> pystr) list \<times> extraction_event list" where
  "extract_text_from_pdf f =
     (case pdfplumber_pages f of
        Inl e \<Rightarrow> ([], [Invoked Pdfplumber, Logged_error e])
      | Inr pages \<Rightarrow>
          (case extract_pages pages 1 [] of
             (text_pages, Some e) \<Rightarrow> (text_pages, [Invoked Pdfplumber, Logged_error e])
           | (text_pages, None) \<Rightarrow>
               if text_pages \<noteq> [] then (text_pages, [Invoked Pdfplumber])
               else
                 (case pypdf2_pages f of
                    Inl e \<Rightarrow> (text_pages, [Invoked Pdfplumber, Invoked PyPDF2, Logged_error e])
                  | Inr pages2 \<Rightarrow>
                      (case extract_pages pages2 1 text_pages of
                         (text_pages2, Some e) \<Rightarrow>
                           (text_pages2, [Invoked Pdfplumber, Invoked PyPDF2, Logged_error e])
                       | (text_pages2, None) \<Rightarrow>
                           if text_pages2 \<noteq> []
                           then (text_pages2, [Invoked Pdfplumber, Invoked PyPDF2])
                           else
                             (case ocr_pdf f of
                                (ocr_text, events) \<Rightarrow>
                                  (ocr_text,
                                   [Invoked Pdfplumber, Invoked PyPDF2, Logged_info] @ events))))))"

text \<open>
  \<open>DeKalbPDFMiner.extract_text_from_pdf\<close> of \<open>pdf_miner_fixed.py\<close>: \<open>pdfplumber\<close> only when
  the module could be imported (\<open>HAS_PDFPLUMBER\<close>), inside a \<open>try\<close> of its own whose handler
  is \<open>pass\<close>; then \<open>PyPDF2\<close> if no page was retained; no OCR.
\<close>

definition fixed_extract_text_from_pdf ::
  "bool \<Rightarrow> pdf_file \<Rightarrow> (nat \<times> pystr) list \<times> extraction_event list" where
  "fixed_extract_text_from_pdf has_pdfplumber f =
     (case (if has_pdfplumber
            then (case pdfplumber_pages f of
                    Inl e \<Rightarrow> ([], [Invoked Pdfplumber])
                  | Inr pages \<Rightarrow> (fst (extract_pages pages 1 []), [Invoked Pdfplumber]))
            else ([], [])) of
        (text_pages, events) \<Rightarrow>
          if text_pages \<noteq> [] then (text_pages, events)
          else
            (case pypdf2_pages f of
               Inl e \<Rightarrow> (text_pages, events @ [Invoked PyPDF2, Logged_error e])
             | Inr pages2 \<Rightarrow>
                 (case extract_pages pages2 1 text_pages of
                    (text_pages2, Some e) \<Rightarrow> (text_pages2, events @ [Invoked PyPDF2, Logged_error e])
                  | (text_pages2, None) \<Rightarrow> (text_pages2, events @ [Invoked PyPDF2]))))"

text \<open>
  The page loop of \<open>ManualPDFAnalyzer.extract_text_from_pdf\<close>, where \<open>extract_text\<close> and
  the test stand in a \<open>try\<close> of their own: a page that raises is reported and the loop
  goes on.
\<close>

fun extract_pages_guarded ::
  "page_text list \<Rightarrow> nat \<Rightarrow> (nat \<times> pystr) list \<Rightarrow> extraction_event list \<Rightarrow>
   (nat \<times> pystr) list \<times> extraction_event list" where
  "extract_pages_guarded [] i text_pages events = (text_pages, events)"
| "extract_pages_guarded (Inl e # pages) i text_pages events =
     extract_pages_guarded pages (Suc i) text_pages (events @ [Warned i])"
| "extract_pages_guarded (Inr t # pages) i text_pages events =
     extract_pages_guarded pages (Suc i) (retain i t text_pages) events"

definition manual_extract_text_from_pdf ::
  "pdf_file \<Rightarrow> (nat \<times> pystr) list \<times> extraction_event list" where
  "manual_extract_text_from_pdf f =
     (case pypdf2_pages f of
        Inl e \<Rightarrow> ([], [Invoked PyPDF2, Logged_error e])
      | Inr pages \<Rightarrow> extract_pages_guarded pages 1 [] [Invoked PyPDF2])"

text \<open>The strategies an extraction invoked, in order.\<close>

fun invoked :: "extraction_event list \<Rightarrow> strategy list" where
  "invoked [] = []"
| "invoked (Invoked s # events) = s # invoked events"
| "invoked (_ # events) = invoked events"

text \<open>
  The pages a text-layer strategy retains when it is run on the file on its own: none
  when opening the document raises, else what its page loop collects.
\<close>

definition strategy_retains :: "reader \<Rightarrow> (nat \<times> pystr) list" where
  "strategy_retains r = (case r of Inl e \<Rightarrow> [] | Inr pages \<Rightarrow> fst (extract_pages pages 1 []))"

text \<open>Whether every retained page has more than 50 characters once trimmed.\<close>

definition all_above_threshold :: "(nat \<times> pystr) list \<Rightarrow> bool" where
  "all_above_threshold text_pages = list_all (\<lambda>(i, t). 50 < length (strip t)) text_pages"

subsection \<open>Concrete files\<close>

text \<open>
  A page text of 60 letters between blanks, a page text too short to keep, and four
  files: one with a text layer, one that is scanned (only OCR finds text), one on which
  the text-layer libraries raise on the first page although the second page has text,
  and one whose only text is too short.
\<close>

definition long_text :: pystr where
  "long_text = [32, 10] @ replicate 60 97 @ [32]"

definition short_text :: pystr where
  "short_text = replicate 20 32 @ replicate 50 97 @ replicate 20 32"

definition text_file :: pdf_file where
  "text_file =
     \<lparr>pdfplumber_pages = Inr [Inr (Some short_text), Inr (Some long_text), Inr None],
      pypdf2_pages = Inr [Inr (Some short_text), Inr (Some long_text), Inr (Some [])],
      ocr_pages = Inr [Inr (Some long_text), Inr (Some long_text), Inr (Some long_text)]\<rparr>"

definition scanned_file :: pdf_file where
  "scanned_file =
     \<lparr>pdfplumber_pages = Inr [Inr None, Inr (Some [])],
      pypdf2_pages = Inr [Inr (Some []), Inr (Some short_text)],
      ocr_pages = Inr [Inr (Some short_text), Inr (Some long_text)]\<rparr>"

definition first_page_broken_file :: pdf_file where
  "first_page_broken_file =
     \<lparr>pdfplumber_pages = Inr [Inl Pdf_error, Inr (Some long_text)],
      pypdf2_pages = Inr [Inl Pdf_error, Inr (Some long_text)],
      ocr_pages = Inr [Inr (Some long_text), Inr (Some long_text)]\<rparr>"

section \<open>The fetch engine\<close>

subsection \<open>Server, file system and trace\<close>

text \<open>
  An HTTP response as the code reads it: the status, the body in the chunks
  \<open>iter_content\<close> yields, and whether the connection breaks after those chunks. The server
  answers a request with a response or not at all (timeout, refused or reset connection).
\<close>

record response =
  status_code :: nat
  chunks :: "pystr list"
  broken :: bool

datatype reply = No_response | Response response

text \<open>
  The network is a parameter: the reply to the \<open>n\<close>-th request of the run (counting from
  0), sent to a URL. Any sequence of replies is such a function.
\<close>

type_synonym network = "nat \<Rightarrow> pystr \<Rightarrow> reply"

text \<open>
  What the code does to the outside world, in order: \<open>time.sleep(random.uniform(a, b))\<close>
  (the bounds are kept, not the random duration), \<open>update_headers\<close> (a random user agent),
  a request, clearing the session's cookies, and the log calls (\<open>Log_exception\<close> is
  \<open>logger.error\<close> with the text of an exception).
\<close>

datatype event =
  Slept nat nat
  | Headers_updated
  | Requested pystr
  | Cookies_cleared
  | Log_info
  | Log_warning
  | Log_error
  | Log_exception exn

text \<open>
  The world: the content of the file at each path, whether \<open>open(path, 'wb')\<close> succeeds
  there, and the trace of events so far.
\<close>

record world =
  files :: "pystr \<Rightarrow> pystr option"
  can_open :: "pystr \<Rightarrow> bool"
  trace :: "event list"

definition emit :: "event list \<Rightarrow> world \<Rightarrow> world" where
  "emit evs w = w\<lparr>trace := trace w @ evs\<rparr>"

fun is_request :: "event \<Rightarrow> bool" where
  "is_request (Requested u) = True"
| "is_request _ = False"

definition request_count :: "world \<Rightarrow> nat" where
  "request_count w = length (filter is_request (trace w))"

text \<open>
  \<open>self.session.get(url, ...)\<close>. Without \<open>stream=True\<close> the body is read before \<open>get\<close>
  returns, so a connection that breaks raises there; with \<open>stream=True\<close> it raises later,
  in \<open>iter_content\<close>.
\<close>

definition session_get :: "network \<Rightarrow> pystr \<Rightarrow> bool \<Rightarrow> world \<Rightarrow> (exn + response) \<times> world" where
  "session_get net u stream w =
     (case net (request_count w) u of
        No_response \<Rightarrow> (Inl Connection_error, emit [Requested u] w)
      | Response r \<Rightarrow>
          if \<not> stream \<and> broken r then (Inl Connection_error, emit [Requested u] w)
          else (Inr r, emit [Requested u] w))"

text \<open>\<open>response.raise_for_status()\<close>: raises for a status from 400 to 599.\<close>

definition raise_for_status :: "response \<Rightarrow> exn + unit" where
  "raise_for_status r =
     (if 400 \<le> status_code r \<and> status_code r < 600 then Inl (HTTP_error (status_code r))
      else Inr ())"

subsection \<open>Listing pages: \<open>get_page_with_retry\<close>\<close>

text \<open>
  \<open>DeKalbPDFMiner.get_page_with_retry\<close> (\<open>pdf_miner_fixed.py\<close>). \<open>after_exception\<close> is the
  handler \<open>except Exception as e\<close>, \<open>retry_loop\<close> the loop \<open>for attempt in
  range(max_retries)\<close> over the attempts still to make.
\<close>

definition after_exception :: "exn \<Rightarrow> nat \<Rightarrow> int \<Rightarrow> world \<Rightarrow> world" where
  "after_exception e attempt max_retries w =
     emit (Log_exception e # (if int attempt < max_retries - 1 then [Slept 5 10] else [])) w"

fun retry_loop :: "network \<Rightarrow> pystr \<Rightarrow> int \<Rightarrow> nat list \<Rightarrow> world \<Rightarrow> response option \<times> world" where
  "retry_loop net u max_retries [] w = (None, w)"
| "retry_loop net u max_retries (attempt # rest) w =
     (case session_get net u False (emit [Slept 2 5, Headers_updated] w) of
        (Inl e, w') \<Rightarrow> retry_loop net u max_retries rest (after_exception e attempt max_retries w')
      | (Inr r, w') \<Rightarrow>
          if status_code r = 200 then (Some r, w')
          else if status_code r = 403 then
            retry_loop net u max_retries rest
              (emit (Log_warning #
                 (if int attempt < max_retries - 1 then [Log_info, Slept 10 20, Cookies_cleared]
                  else [])) w')
          else
            (case raise_for_status r of
               Inl e \<Rightarrow>
                 retry_loop net u max_retries rest (after_exception e attempt max_retries w')
             | Inr _ \<Rightarrow> retry_loop net u max_retries rest w'))"

definition get_page_with_retry ::
  "network \<Rightarrow> pystr \<Rightarrow> int \<Rightarrow> world \<Rightarrow> response option \<times> world" where
  "get_page_with_retry net u max_retries w = retry_loop net u max_retries [0..<nat max_retries] w"

text \<open>Whether a reply lets \<open>get_page_with_retry\<close> return: a complete response with status 200.\<close>

definition answers_200 :: "reply \<Rightarrow> bool" where
  "answers_200 rep = (case rep of No_response \<Rightarrow> False | Response r \<Rightarrow> status_code r = 200 \<and> \<not> broken r)"

text \<open>Whether none of the next \<open>n\<close> requests to a URL would be answered so.\<close>

definition never_200 :: "network \<Rightarrow> pystr \<Rightarrow> world \<Rightarrow> nat \<Rightarrow> bool" where
  "never_200 net u w n = list_all (\<lambda>k. \<not> answers_200 (net (request_count w + k) u)) [0..<n]"

subsection \<open>Documents: \<open>download_pdf\<close>\<close>

text \<open>
  The end of \<open>download_pdf\<close>, from \<open>with open(save_path, 'wb') as f\<close> on: the file is
  created (or emptied) and the chunks are written; when the connection breaks the chunks
  received stay in the file and the handler returns \<open>False\<close>.
\<close>

definition save_response :: "response \<Rightarrow> pystr \<Rightarrow> world \<Rightarrow> bool \<times> world" where
  "save_response r save_path w =
     (if \<not> can_open w save_path then (False, emit [Log_exception OS_error] w)
      else if broken r
        then (False, emit [Log_exception Connection_error]
                       (w\<lparr>files := (files w)(save_path \<mapsto> concat (chunks r))\<rparr>))
        else (True, emit [Log_info] (w\<lparr>files := (files w)(save_path \<mapsto> concat (chunks r))\<rparr>)))"

text \<open>
  \<open>DeKalbPDFMiner.download_pdf\<close>, with \<open>prelude\<close> the events before the request: none in
  \<open>tool.py\<close>, a random delay and new headers in \<open>pdf_miner_fixed.py\<close>. The test
  \<open>os.path.exists(save_path)\<close> does not look at the size of the file.
\<close>

definition download_with :: "event list \<Rightarrow> network \<Rightarrow> pdf_info \<Rightarrow> pystr \<Rightarrow> world \<Rightarrow> bool \<times> world" where
  "download_with prelude net info save_path w =
     (if files w save_path \<noteq> None then (True, emit [Log_info] w)
      else
        (case session_get net (url info) True (emit prelude w) of
           (Inl e, w') \<Rightarrow> (False, emit [Log_exception e] w')
         | (Inr r, w') \<Rightarrow>
             (case raise_for_status r of
                Inl e \<Rightarrow> (False, emit [Log_exception e] w')
              | Inr _ \<Rightarrow> save_response r save_path w')))"


definition download_pdf :: "network \<Rightarrow> pdf_info \<Rightarrow> pystr \<Rightarrow> world \<Rightarrow> bool \<times> world" where
  "download_pdf = download_with [Slept 1 3, Headers_updated]"



section \<open>The mining coordinator\<close>

text \<open>
  What \<open>pdf_miner_fixed.py\<close> takes from outside the repository: the network, the links
  \<open>BeautifulSoup\<close>, \<open>re.search\<close> and \<open>urljoin\<close> make of a listing page (the list
  \<open>pdf_links\<close> as the \<open>try\<close> block leaves it, and the exception that ended the block, if
  any), what the PDF libraries see in a file of a given content, the regular-expression
  library, and whether \<open>pdfplumber\<close> could be imported.
\<close>

record env =
  env_net :: network
  env_parse_links :: "pystr \<Rightarrow> pystr \<Rightarrow> pdf_info list \<times> exn option"
  env_read_pdf :: "pystr option \<Rightarrow> pdf_file"
  env_regex :: regex_engine
  env_has_pdfplumber :: bool

text \<open>\<open>DeKalbPDFMiner.extract_pdf_links\<close> (\<open>pdf_miner_fixed.py\<close>); \<open>max_retries\<close> is the default 3.\<close>

definition extract_pdf_links :: "env \<Rightarrow> pystr \<Rightarrow> world \<Rightarrow> pdf_info list \<times> world" where
  "extract_pdf_links env u w =
     (case get_page_with_retry (env_net env) u 3 w of
        (None, w') \<Rightarrow> ([], emit [Log_error] w')
      | (Some r, w') \<Rightarrow>
          (case env_parse_links env u (concat (chunks r)) of
             (pdf_links, None) \<Rightarrow> (pdf_links, emit [Log_info] w')
           | (pdf_links, Some e) \<Rightarrow> (pdf_links, emit [Log_exception e] w')))"

text \<open>\<open>os.path.join\<close> (POSIX): a component that starts with \<open>/\<close> restarts the path.\<close>

definition path_join2 :: "pystr \<Rightarrow> pystr \<Rightarrow> pystr" where
  "path_join2 a b =
     (if b \<noteq> [] \<and> hd b = 47 then b
      else if a = [] \<or> last a = 47 then a @ b
      else a @ [47] @ b)"

definition os_path_join :: "pystr \<Rightarrow> pystr list \<Rightarrow> pystr" where
  "os_path_join a ps = foldl path_join2 a ps"

text \<open>
  \<^verbatim>\<open>
  for page_num, text in text_pages:
      matches = self.search_keywords_in_text(text, page_num, pdf_info, committee_name)
      self.results.extend(matches)
  \<close>
\<close>

fun scan_pages ::
  "regex_engine \<Rightarrow> miner \<Rightarrow> pdf_info \<Rightarrow> pystr \<Rightarrow> (nat \<times> pystr) list \<Rightarrow> exn + miner" where
  "scan_pages eng self info committee_name [] = Inr self"
| "scan_pages eng self info committee_name ((page_num, txt) # rest) =
     (case search_keywords_in_text eng self txt page_num info committee_name of
        Inl e \<Rightarrow> Inl e
      | Inr matches \<Rightarrow>
          scan_pages eng (self\<lparr>results := results self @ matches\<rparr>) info committee_name rest)"

text \<open>
  One of the two loops of \<open>process_committee\<close> (\<open>bucket\<close> is \<open>'current'\<close> or \<open>'archive'\<close>):
  \<^verbatim>\<open>
  for pdf_info in tqdm(current_pdfs, ...):
      save_path = os.path.join(self.base_dir, committee_key, 'current', pdf_info['filename'])
      if self.download_pdf(pdf_info, save_path):
          text_pages = self.extract_text_from_pdf(save_path)
          ...
  \<close>
  A download that fails has no \<open>else\<close> branch: the loop goes to the next document.
\<close>

fun process_pdfs ::
  "env \<Rightarrow> pystr \<Rightarrow> pystr \<Rightarrow> pystr \<Rightarrow> pdf_info list \<Rightarrow> miner \<Rightarrow> world \<Rightarrow> exn + miner \<times> world" where
  "process_pdfs env committee_key bucket committee_name [] self w = Inr (self, w)"
| "process_pdfs env committee_key bucket committee_name (info # rest) self w =
     (case download_pdf (env_net env) info
             (os_path_join (base_dir self) [committee_key, bucket, filename info]) w of
        (False, w') \<Rightarrow> process_pdfs env committee_key bucket committee_name rest self w'
      | (True, w') \<Rightarrow>
          (case scan_pages (env_regex env) self info committee_name
                  (fst (fixed_extract_text_from_pdf (env_has_pdfplumber env)
                     (env_read_pdf env
                        (files w' (os_path_join (base_dir self)
                                     [committee_key, bucket, filename info]))))) of
             Inl e \<Rightarrow> Inl e
           | Inr self' \<Rightarrow> process_pdfs env committee_key bucket committee_name rest self' w'))"

text \<open>\<open>DeKalbPDFMiner.process_committee\<close> (\<open>pdf_miner_fixed.py\<close>).\<close>

definition process_committee :: "env \<Rightarrow> pystr \<Rightarrow> miner \<Rightarrow> world \<Rightarrow> exn + miner \<times> world" where
  "process_committee env committee_key self w =
     (case map_of (committees self) committee_key of
        None \<Rightarrow> Inl Key_error
      | Some committee \<Rightarrow>
          (case extract_pdf_links env (main_url committee) (emit [Log_info] w) of
             (current_pdfs, w1) \<Rightarrow>
               (case extract_pdf_links env (archive_url committee) w1 of
                  (archive_pdfs, w2) \<Rightarrow>
                    (case process_pdfs env committee_key (str_of ''current'') (name committee)
                            current_pdfs self w2 of
                       Inl e \<Rightarrow> Inl e
                     | Inr (self', w3) \<Rightarrow>
                         process_pdfs env committee_key (str_of ''archive'') (name committee)
                           archive_pdfs self' w3))))"

subsection \<open>Concrete servers and documents\<close>

text \<open>
  A world with no file yet, a server that refuses every request with 403, one that
  fails with 500, one that answers the third request only (403, then no answer, then the
  page), and one that serves the document of \<open>example_info\<close> and answers every other
  request with a given error status.
\<close>

definition empty_world :: world where
  "empty_world = \<lparr>files = (\<lambda>p. None), can_open = (\<lambda>p. True), trace = []\<rparr>"

definition error_response :: "nat \<Rightarrow> response" where
  "error_response status = \<lparr>status_code = status, chunks = [], broken = False\<rparr>"

definition listing_page :: response where
  "listing_page = \<lparr>status_code = 200, chunks = [str_of ''<html></html>''], broken = False\<rparr>"

definition pdf_response :: response where
  "pdf_response = \<lparr>status_code = 200, chunks = [str_of ''%PDF-1.4''], broken = False\<rparr>"

definition listing_url :: pystr where
  "listing_url = str_of ''https://dekalbcounty.org/government/county-boards-commissions/county-highway/''"

definition forbidden_net :: network where
  "forbidden_net = (\<lambda>n u. Response (error_response 403))"

definition server_error_net :: network where
  "server_error_net = (\<lambda>n u. Response (error_response 500))"

definition flaky_net :: network where
  "flaky_net =
     (\<lambda>n u. if n = 0 then Response (error_response 403)
            else if n = 1 then No_response
            else Response listing_page)"

definition partial_net :: "nat \<Rightarrow> network" where
  "partial_net status =
     (\<lambda>n u. if u = url example_info then Response pdf_response
            else Response (error_response status))"

definition refused_info :: pdf_info where
  "refused_info = \<lparr>url = str_of ''https://dekalbcounty.org/docs/agenda-02-02-2024.pdf'',
     link_text = str_of ''Feb 2 Agenda'', date_str = str_of ''02-02-2024'',
     filename = str_of ''agenda-02-02-2024.pdf''\<rparr>"

definition minutes_page :: pystr where
  "minutes_page = str_of ''the Highway Department received a complaint about Hamm''"

definition minutes_file :: pdf_file where
  "minutes_file =
     \<lparr>pdfplumber_pages = Inr [Inr (Some minutes_page)],
      pypdf2_pages = Inr [Inr (Some minutes_page)],
      ocr_pages = Inr []\<rparr>"

definition example_env :: "nat \<Rightarrow> env" where
  "example_env status =
     \<lparr>env_net = partial_net status, env_parse_links = (\<lambda>u c. ([], None)),
      env_read_pdf = (\<lambda>c. minutes_file), env_regex = literal_engine,
      env_has_pdfplumber = True\<rparr>"

definition example_path :: pystr where
  "example_path = str_of ''dekalb_pdfs/highway/current/minutes-01-05-2024.pdf''"


text \<open>The two findings of \<open>minutes_page\<close>: \<open>Hamm\<close> at offsets 50 to 54, once for each tier.\<close>

definition example_findings :: "finding list" where
  "example_findings =
     [new_match minutes_page 1 example_info (str_of ''Highway'') (str_of ''priority_1'')
        (str_of ''Hamm'') (50, 54),
      new_match minutes_page 1 example_info (str_of ''Highway'') (str_of ''priority_2'')
        (str_of ''hamm'') (50, 54)]"


section \<open>Properties of the context of a match\<close>

subsection \<open>Splitting and joining\<close>

lemma isspace_32: "isspace 32"
  by (simp add: isspace_def)

lemma split_from_words:
  "\<forall>c\<in>set w. \<not> isspace c \<Longrightarrow> v \<in> set (split_from w s) \<Longrightarrow> v \<noteq> [] \<and> (\<forall>c\<in>set v. \<not> isspace c)"
proof (induction s arbitrary: w)
  case Nil
  then show ?case by (cases "w = []") simp_all
next
  case (Cons c cs)
  show ?case
  proof (cases "isspace c")
    case True
    show ?thesis
    proof (cases "w = []")
      case True
      with \<open>isspace c\<close> Cons.prems(2) have "v \<in> set (split_from [] cs)" by simp
      then show ?thesis using Cons.IH[of "[]"] by simp
    next
      case False
      with \<open>isspace c\<close> Cons.prems(2) have "v = w \<or> v \<in> set (split_from [] cs)" by simp
      then show ?thesis using Cons.IH[of "[]"] Cons.prems(1) False by auto
    qed
  next
    case False
    with Cons.prems(2) have "v \<in> set (split_from (w @ [c]) cs)" by simp
    moreover have "\<forall>d\<in>set (w @ [c]). \<not> isspace d" using Cons.prems(1) False by simp
    ultimately show ?thesis using Cons.IH[of "w @ [c]"] by blast
  qed
qed

lemma split_words: "v \<in> set (split s) \<Longrightarrow> v \<noteq> [] \<and> (\<forall>c\<in>set v. \<not> isspace c)"
  unfolding split_def using split_from_words[of "[]" v s] by simp

lemma has_space_run_Cons:
  "has_space_run (a # ys) \<longleftrightarrow> (ys \<noteq> [] \<and> a = 32 \<and> hd ys = 32) \<or> has_space_run ys"
  by (cases ys) auto

lemma has_space_run_append:
  "has_space_run (xs @ ys) \<longleftrightarrow>
     has_space_run xs \<or> has_space_run ys \<or> (xs \<noteq> [] \<and> ys \<noteq> [] \<and> last xs = 32 \<and> hd ys = 32)"
proof (induction xs)
  case Nil
  then show ?case by simp
next
  case (Cons a xs)
  show ?case
  proof (cases xs)
    case Nil
    then show ?thesis by (auto simp: has_space_run_Cons)
  next
    case (Cons b cs)
    with Cons.IH show ?thesis by auto
  qed
qed

lemma word_no_space_run: "\<forall>c\<in>set w. \<not> isspace c \<Longrightarrow> \<not> has_space_run w"
  using isspace_32 by (induction w rule: has_space_run.induct) auto

lemma join_hd: "ws \<noteq> [] \<Longrightarrow> hd ws \<noteq> [] \<Longrightarrow> hd (join sep ws) = hd (hd ws)"
  by (induction sep ws rule: join.induct) auto

lemma join_no_space_run:
  "\<forall>w\<in>set ws. w \<noteq> [] \<and> (\<forall>c\<in>set w. \<not> isspace c) \<Longrightarrow> \<not> has_space_run (join [32] ws)"
proof (induction "[32::nat]" ws rule: join.induct)
  case 1
  then show ?case by simp
next
  case (2 w)
  then show ?case by (simp add: word_no_space_run)
next
  case (3 w v ws)
  have w: "w \<noteq> []" "\<forall>c\<in>set w. \<not> isspace c" and v: "v \<noteq> []" "\<forall>c\<in>set v. \<not> isspace c"
    using 3 by auto
  have lw: "last w \<noteq> 32" using w isspace_32 last_in_set by metis
  have "hd v \<noteq> 32" using v isspace_32 hd_in_set by metis
  then have hv: "hd (join [32] (v # ws)) \<noteq> 32"
    using v(1) join_hd[of "v # ws" "[32]"] by simp
  have IH: "\<not> has_space_run (join [32] (v # ws))" using 3 by simp
  have "\<not> has_space_run (32 # join [32] (v # ws))"
    using IH hv by (cases "join [32] (v # ws)") auto
  then show ?case
    using w lw word_no_space_run[of w] by (simp add: has_space_run_append)
qed

lemma join_spaces_only:
  "\<forall>w\<in>set ws. \<forall>c\<in>set w. \<not> isspace c \<Longrightarrow> c \<in> set (join [32] ws) \<Longrightarrow> isspace c \<Longrightarrow> c = 32"
  by (induction "[32::nat]" ws rule: join.induct) auto

lemma filter_join:
  "\<forall>w\<in>set ws. \<forall>c\<in>set w. \<not> isspace c \<Longrightarrow>
   filter (\<lambda>c. \<not> isspace c) (join [32] ws) = concat ws"
  using isspace_32 by (induction "[32::nat]" ws rule: join.induct) (auto simp: filter_id_conv)

lemma concat_split_from:
  "\<forall>c\<in>set w. \<not> isspace c \<Longrightarrow> concat (split_from w s) = w @ filter (\<lambda>c. \<not> isspace c) s"
  by (induction s arbitrary: w) auto

lemma split_from_spaces:
  "\<forall>c\<in>set t. isspace c \<Longrightarrow> split_from w t = (if w = [] then [] else [w])"
  by (induction t arbitrary: w) auto

lemma split_from_trailing:
  "\<forall>c\<in>set t. isspace c \<Longrightarrow> split_from w (s @ t) = split_from w s"
  by (induction s arbitrary: w) (auto simp: split_from_spaces)

lemma split_from_leading: "split_from [] (dropWhile isspace s) = split_from [] s"
  by (induction s) auto

lemma split_strip: "split (strip s) = split s"
proof -
  let ?d = "dropWhile isspace s"
  have "?d = rev (dropWhile isspace (rev ?d)) @ rev (takeWhile isspace (rev ?d))"
    by (metis rev_append rev_rev_ident takeWhile_dropWhile_id)
  moreover have "\<forall>c\<in>set (rev (takeWhile isspace (rev ?d))). isspace c"
    by (auto dest: set_takeWhileD)
  ultimately have "split_from [] (rev (dropWhile isspace (rev ?d))) = split_from [] ?d"
    using split_from_trailing by metis
  then show ?thesis by (simp add: split_def strip_def split_from_leading)
qed

subsection \<open>The window\<close>

lemma slice_nonneg:
  "0 \<le> i \<Longrightarrow> 0 \<le> j \<Longrightarrow> slice s i j = take (nat j - nat i) (drop (nat i) s)"
  by (cases "nat i \<le> length s") (auto simp: slice_def slice_bound_def min_def)

lemma context_bounds_nat:
  "nat (context_start s) = s - 300" "nat (context_end text e) = min (length text) (e + 300)"
  by (auto simp: context_start_def context_end_def min_def)

lemma context_bounds: "0 \<le> context_start s" "context_end text e \<le> int (length text)"
  "0 \<le> context_end text e"
  by (auto simp: context_start_def context_end_def)

lemma context_window_take_drop:
  "context_window text s e = take (min (length text) (e + 300) - (s - 300)) (drop (s - 300) text)"
  unfolding context_window_def
  by (simp only: slice_nonneg[OF context_bounds(1) context_bounds(3)] context_bounds_nat)

lemma drop_split3:
  assumes "s \<le> e" and "e \<le> length text"
  shows "drop s text = take (e - s) (drop s text) @ drop e text"
  using assms by (metis append_take_drop_id drop_drop le_add_diff_inverse2)

lemma drop_before:
  "s \<le> length text \<Longrightarrow> drop (s - 300) (take s text @ B @ C) = drop (s - 300) (take s text) @ B @ C"
  by simp

lemma take_three:
  assumes "s \<le> e" and "e \<le> length (text::nat list)" "length A = s - (s - 300)"
    "length B = e - s" "C = drop e text"
  shows "take (min (length text) (e + 300) - (s - 300)) (A @ B @ C) = A @ B @ take 300 C"
  using assms by (auto simp: min_def)

lemma window_parts:
  assumes "s \<le> e" and "e \<le> length text"
  shows "context_window text s e =
           drop (s - 300) (take s text) @ match_group text s e @ take 300 (drop e text)"
proof -
  have B: "match_group text s e = take (e - s) (drop s text)"
    by (simp add: match_group_def slice_nonneg)
  have "take s text @ drop s text = text" by (rule append_take_drop_id)
  then have "take s text @ take (e - s) (drop s text) @ drop e text = text"
    using drop_split3[OF assms] by simp
  then have "drop (s - 300) text =
      drop (s - 300) (take s text @ take (e - s) (drop s text) @ drop e text)"
    by (rule arg_cong[symmetric])
  then have d: "drop (s - 300) text =
      drop (s - 300) (take s text) @ take (e - s) (drop s text) @ drop e text"
    using assms by (simp only: drop_before[OF order_trans[OF assms]])
  have lA: "length (drop (s - 300) (take s text)) = s - (s - 300)" using assms by simp
  have lB: "length (take (e - s) (drop s text)) = e - s" using assms by simp
  show ?thesis
    unfolding context_window_take_drop d B
    by (rule take_three[OF assms lA lB refl])
qed


lemma split_from_no_space:
  "\<forall>c\<in>set s. \<not> isspace c \<Longrightarrow> split_from w s = (if w @ s = [] then [] else [w @ s])"
  by (induction s arbitrary: w) auto

lemma join_split_no_space: "\<forall>c\<in>set s. \<not> isspace c \<Longrightarrow> join [32] (split s) = s"
  by (simp add: split_def split_from_no_space)

text \<open>
  For a span \<open>(s, e)\<close> inside the page, the bounds of the slice lie inside the text, the
  window of the code is the window of the specification, and the context is that window
  with every run of whitespace replaced by one space and none left at either end: it has
  no two spaces in a row, its only whitespace characters are single spaces and its other
  characters are those of the window, in order.
\<close>

lemma context_of_correct:
  assumes "s \<le> e" and "e \<le> length text"
  shows "0 \<le> context_start s \<and> context_end text e \<le> int (length text)
    \<and> match_group text s e = take (e - s) (drop s text)
    \<and> context_window text s e = spec_window text s e
    \<and> context_of text s e = join [32] (split (spec_window text s e))
    \<and> \<not> has_space_run (context_of text s e)
    \<and> (\<forall>c\<in>set (context_of text s e). isspace c \<longrightarrow> c = 32)
    \<and> filter (\<lambda>c. \<not> isspace c) (context_of text s e) =
          filter (\<lambda>c. \<not> isspace c) (spec_window text s e)"
proof -
  let ?w = "context_window text s e"
  have c: "context_of text s e = join [32] (split ?w)"
    by (simp add: context_of_def split_strip)
  have words: "\<forall>v\<in>set (split ?w). v \<noteq> [] \<and> (\<forall>c\<in>set v. \<not> isspace c)"
    using split_words by blast
  have run: "\<not> has_space_run (join [32] (split ?w))"
    by (rule join_no_space_run[OF words])
  have only: "\<forall>c\<in>set (join [32] (split ?w)). isspace c \<longrightarrow> c = 32"
    using join_spaces_only[of "split ?w"] words by blast
  have "filter (\<lambda>c. \<not> isspace c) (join [32] (split ?w)) = concat (split ?w)"
    using filter_join[of "split ?w"] words by blast
  also have "\<dots> = filter (\<lambda>c. \<not> isspace c) ?w"
    using concat_split_from[of "[]" ?w] by (simp add: split_def)
  finally have f: "filter (\<lambda>c. \<not> isspace c) (join [32] (split ?w)) =
      filter (\<lambda>c. \<not> isspace c) ?w" .
  have g: "match_group text s e = take (e - s) (drop s text)"
    by (simp add: match_group_def slice_nonneg)
  have w: "?w = spec_window text s e"
    using window_parts[OF assms] by (simp add: spec_window_def g)
  show ?thesis
    using context_bounds(1,2) g c run only f unfolding w by simp
qed

text \<open>On the short page the context is the sentence with single spaces.\<close>

lemma short_page_context: "context_of short_page 9 13 = str_of ''see Mr. Hamm today''"
  by (simp add: short_page_def str_of_def context_of_def context_window_def context_start_def context_end_def
   slice_def slice_bound_def strip_def split_def isspace_def)

text \<open>
  The page of the specification's test: the match lies less than 300 characters from
  both ends, so nothing is clipped and the context is the whole page.
\<close>

lemma spec_example_length: "length spec_example = 592"
  by (simp add: spec_example_def str_of_def)

lemma spec_example_no_space: "\<forall>c\<in>set spec_example. \<not> isspace c"
  by (auto simp: spec_example_def str_of_def isspace_def)

lemma spec_example_context: "context_of spec_example 294 298 = spec_example"
proof -
  have "context_window spec_example 294 298 = spec_example"
    by (simp add: context_window_take_drop spec_example_length)
  then show ?thesis
    using spec_example_no_space
    by (simp add: context_of_def split_strip join_split_no_space)
qed

section \<open>Properties of the classification\<close>

text \<open>
  The loops in closed form: the scan fails exactly when some pattern does not compile,
  and otherwise appends, tier by tier and pattern by pattern, one entry for each match.
\<close>

lemma scan_terms_eq:
  "scan_terms eng txt mk ps acc =
     (if list_all (compiles eng) ps
      then Inr (acc @ concat (map (\<lambda>p. map (mk p) (finds eng p txt)) ps))
      else Inl Re_error)"
  by (induction ps arbitrary: acc) (simp_all add: re_finditer_def)

lemma scan_tiers_eq:
  "scan_tiers eng txt gt mk cat acc =
     (if all_compile eng gt cat
      then Inr (acc @ concat (map (\<lambda>(priority, d).
              concat (map (\<lambda>p. map (mk priority p) (finds eng p txt)) (gt d))) cat))
      else Inl Re_error)"
proof (induction cat arbitrary: acc)
  case Nil
  then show ?case by (simp add: all_compile_def)
next
  case (Cons a cat)
  obtain priority d where a: "a = (priority, d)" by (cases a)
  show ?case
    by (simp add: a Cons.IH scan_terms_eq all_compile_def)
qed

text \<open>The findings are the image of the occurrences, and the occurrences are sorted.\<close>

lemma map_enumerate_snd:
  "(\<And>i x. F (i, x) = G x) \<Longrightarrow> map F (enumerate n xs) = map G xs"
  by (induction xs arbitrary: n) auto

lemma map_tier_occurrences:
  "map (\<lambda>oc. mk (tier_name oc) (pattern_of oc) (span_of oc)) (tier_occurrences eng txt gt it) =
   concat (map (\<lambda>p. map (mk (fst (snd it)) p) (finds eng p txt)) (gt (snd (snd it))))"
proof -
  have "map (\<lambda>oc. mk (tier_name oc) (pattern_of oc) (span_of oc)) (tier_occurrences eng txt gt it) =
    concat (map (\<lambda>jp. map (mk (fst (snd it)) (snd jp)) (finds eng (snd jp) txt))
       (enumerate 0 (gt (snd (snd it)))))"
    by (simp add: tier_occurrences_def pattern_occurrences_def map_concat comp_def)
  also have "\<dots> = concat (map (\<lambda>p. map (mk (fst (snd it)) p) (finds eng p txt)) (gt (snd (snd it))))"
    by (rule arg_cong[where f=concat], rule map_enumerate_snd) simp
  finally show ?thesis .
qed

lemma map_occurrences:
  "map (\<lambda>oc. mk (tier_name oc) (pattern_of oc) (span_of oc)) (occurrences eng txt gt cat) =
   concat (map (\<lambda>(priority, d).
      concat (map (\<lambda>p. map (mk priority p) (finds eng p txt)) (gt d))) cat)"
proof -
  have "map (\<lambda>oc. mk (tier_name oc) (pattern_of oc) (span_of oc)) (occurrences eng txt gt cat) =
    concat (map (\<lambda>it. concat (map (\<lambda>p. map (mk (fst (snd it)) p) (finds eng p txt))
        (gt (snd (snd it))))) (enumerate 0 cat))"
    by (simp add: occurrences_def map_concat comp_def map_tier_occurrences)
  also have "\<dots> = concat (map (\<lambda>t. concat (map (\<lambda>p. map (mk (fst t) p) (finds eng p txt))
        (gt (snd t)))) cat)"
    by (rule arg_cong[where f=concat], rule map_enumerate_snd) simp
  also have "\<dots> = concat (map (\<lambda>(priority, d).
      concat (map (\<lambda>p. map (mk priority p) (finds eng p txt)) (gt d))) cat)"
    by (rule arg_cong[where f=concat], rule map_cong) auto
  finally show ?thesis .
qed

lemma sorted_wrt_concat_enumerate:
  assumes "\<And>i x. x \<in> set xs \<Longrightarrow> sorted_wrt R (F (i, x))"
    and "\<And>i i' x x' a b. i < i' \<Longrightarrow> a \<in> set (F (i, x)) \<Longrightarrow> b \<in> set (F (i', x')) \<Longrightarrow> R a b"
  shows "sorted_wrt R (concat (map F (enumerate n xs)))"
  using assms(1)
proof (induction xs arbitrary: n)
  case Nil
  then show ?case by simp
next
  case (Cons x xs)
  have "sorted_wrt R (concat (map F (enumerate (Suc n) xs)))"
    using Cons by simp
  moreover have "sorted_wrt R (F (n, x))" using Cons.prems by simp
  moreover have "R a b" if "a \<in> set (F (n, x))"
    and "b \<in> set (concat (map F (enumerate (Suc n) xs)))" for a b
  proof -
    from that(2) obtain i' x' where "(i', x') \<in> set (enumerate (Suc n) xs)" "b \<in> set (F (i', x'))"
      by auto
    then have "n < i'" by (auto simp: in_set_enumerate_eq)
    then show ?thesis using assms(2) that(1) \<open>b \<in> set (F (i', x'))\<close> by blast
  qed
  ultimately show ?case by (simp add: sorted_wrt_append)
qed

lemma pattern_occurrences_sorted:
  "sorted (map fst (finds eng p txt)) \<Longrightarrow>
   sorted_wrt occurrence_le (pattern_occurrences eng txt i priority (j, p))"
  unfolding pattern_occurrences_def sorted_wrt_map sorted_map
  by (rule sorted_wrt_mono_rel[rotated]) (auto simp: occurrence_le_def)

lemma tier_occurrences_index:
  "a \<in> set (tier_occurrences eng txt gt it) \<Longrightarrow> tier_index a = fst it"
  by (auto simp: tier_occurrences_def pattern_occurrences_def)

lemma tier_occurrences_sorted:
  assumes "\<forall>p\<in>set (gt d). sorted (map fst (finds eng p txt))"
  shows "sorted_wrt occurrence_le (tier_occurrences eng txt gt (i, priority, d))"
  unfolding tier_occurrences_def
proof (rule sorted_wrt_concat_enumerate)
  fix j p assume "p \<in> set (gt (snd (snd (i, priority, d))))"
  then have "sorted (map fst (finds eng p txt))" using assms by simp
  then show "sorted_wrt occurrence_le
      (pattern_occurrences eng txt (fst (i, priority, d)) (fst (snd (i, priority, d))) (j, p))"
    by (rule pattern_occurrences_sorted)
next
  fix j j' :: nat and p p' a b
  assume "j < j'"
    "a \<in> set (pattern_occurrences eng txt (fst (i, priority, d)) (fst (snd (i, priority, d))) (j, p))"
    "b \<in> set (pattern_occurrences eng txt (fst (i, priority, d)) (fst (snd (i, priority, d))) (j', p'))"
  then show "occurrence_le a b" by (auto simp: occurrence_le_def pattern_occurrences_def)
qed

lemma occurrences_sorted:
  assumes r: "reports_by_start eng txt gt cat"
  shows "sorted_wrt occurrence_le (occurrences eng txt gt cat)"
  unfolding occurrences_def
proof (rule sorted_wrt_concat_enumerate)
  have ball: "\<forall>(priority, d)\<in>set cat. \<forall>p\<in>set (gt d). sorted (map fst (finds eng p txt))"
    using r by (auto simp: reports_by_start_def list_all_iff)
  fix i and t :: "pystr \<times> 'a" assume "t \<in> set cat"
  then have "\<forall>p\<in>set (gt (snd t)). sorted (map fst (finds eng p txt))"
    using ball by (cases t) auto
  then show "sorted_wrt occurrence_le (tier_occurrences eng txt gt (i, t))"
    using tier_occurrences_sorted[of gt "snd t" eng "txt" i "fst t"] by simp
next
  fix i i' :: nat and t t' :: "pystr \<times> 'a" and a b
  assume "i < i'" "a \<in> set (tier_occurrences eng txt gt (i, t))"
    "b \<in> set (tier_occurrences eng txt gt (i', t'))"
  then have "tier_index a < tier_index b"
    using tier_occurrences_index[of a eng "txt" gt "(i, t)"]
      tier_occurrences_index[of b eng "txt" gt "(i', t')"] by simp
  then show "occurrence_le a b" by (simp add: occurrence_le_def)
qed

text \<open>
  Claim C1. The result of \<open>search_keywords_in_text\<close> depends on the miner only through
  its catalog: a second run, whatever happened to the rest of the miner in between, gives
  the same result. When the scan returns, its findings are, in this order, those of the
  match occurrences listed tier by tier, pattern by pattern and match by match; with a
  library that reports the matches of a pattern by ascending start offset, that list is
  sorted by tier, then pattern, then start offset.
\<close>

theorem classification_deterministic_and_ordered:
  assumes "self_keywords self' = self_keywords self"
    and "reports_by_start eng txt terms (self_keywords self)"
  shows "search_keywords_in_text eng self' txt page_num info committee =
           search_keywords_in_text eng self txt page_num info committee
    \<and> (\<forall>fs. search_keywords_in_text eng self txt page_num info committee = Inr fs \<longrightarrow>
          fs = map (\<lambda>oc. new_match txt page_num info committee (tier_name oc) (pattern_of oc) (span_of oc))
                 (occurrences eng txt terms (self_keywords self))
          \<and> sorted_wrt occurrence_le (occurrences eng txt terms (self_keywords self)))"
proof -
  have "search_keywords_in_text eng self' txt page_num info committee =
        search_keywords_in_text eng self txt page_num info committee"
    using assms(1) by (simp add: search_keywords_in_text_def)
  moreover have "sorted_wrt occurrence_le (occurrences eng txt terms (self_keywords self))"
    by (rule occurrences_sorted[OF assms(2)])
  moreover have "fs = map (\<lambda>oc. new_match txt page_num info committee (tier_name oc) (pattern_of oc) (span_of oc))
                 (occurrences eng txt terms (self_keywords self))"
    if "search_keywords_in_text eng self txt page_num info committee = Inr fs" for fs
    using that
    by (simp add: search_keywords_in_text_def scan_tiers_eq map_occurrences split: if_splits)
  ultimately show ?thesis by blast
qed

text \<open>
  On the example page, with the literal engine: a miner that differs in its results gives
  the same findings, and the seven occurrences come in the order (tier, pattern, start).
\<close>

theorem classification_deterministic_and_ordered_witness:
  "self_keywords (example_miner\<lparr>results := [new_match example_page 1 example_info [] [] [] (0, 4)]\<rparr>)
     = self_keywords example_miner
   \<and> reports_by_start literal_engine example_page terms (self_keywords example_miner)
   \<and> search_keywords_in_text literal_engine
        (example_miner\<lparr>results := [new_match example_page 1 example_info [] [] [] (0, 4)]\<rparr>)
        example_page 1 example_info (str_of ''Highway'')
      = search_keywords_in_text literal_engine example_miner example_page 1 example_info (str_of ''Highway'')
   \<and> (\<exists>fs. search_keywords_in_text literal_engine example_miner example_page 1 example_info
              (str_of ''Highway'') = Inr fs
         \<and> fs = map (\<lambda>oc. new_match example_page 1 example_info (str_of ''Highway'')
                         (tier_name oc) (pattern_of oc) (span_of oc))
                  (occurrences literal_engine example_page terms (self_keywords example_miner)))
   \<and> sorted_wrt occurrence_le (occurrences literal_engine example_page terms (self_keywords example_miner))
   \<and> map (\<lambda>oc. (tier_index oc, pattern_index oc, fst (span_of oc)))
        (occurrences literal_engine example_page terms (self_keywords example_miner)) =
      [(0, 0, 0), (0, 0, 9), (0, 0, 18), (0, 1, 29), (1, 0, 0), (1, 0, 9), (1, 0, 18)]"
proof -
  let ?m = "example_miner\<lparr>results := [new_match example_page 1 example_info [] [] [] (0, 4)]\<rparr>"
  have h1: "self_keywords ?m = self_keywords example_miner" by simp
  have h2: "reports_by_start literal_engine example_page terms (self_keywords example_miner)"
    by (simp add: reports_by_start_def example_miner_def init_miner_def example_catalog_def
        example_page_def literal_engine_def str_of_def lower_def)
  have ok: "all_compile literal_engine terms (self_keywords example_miner)"
    by (simp add: example_miner_def init_miner_def example_catalog_def all_compile_def
      literal_engine_def str_of_def plain_char_def)
  have h3: "map (\<lambda>oc. (tier_index oc, pattern_index oc, fst (span_of oc)))
        (occurrences literal_engine example_page terms (self_keywords example_miner)) =
      [(0, 0, 0), (0, 0, 9), (0, 0, 18), (0, 1, 29), (1, 0, 0), (1, 0, 9), (1, 0, 18)]"
    by (simp add: example_miner_def init_miner_def example_catalog_def example_page_def
      literal_engine_def str_of_def lower_def occurrences_def tier_occurrences_def
      pattern_occurrences_def enumerate_eq_zip)
  obtain fs where run: "search_keywords_in_text literal_engine example_miner example_page 1
       example_info (str_of ''Highway'') = Inr fs"
    using ok by (simp add: search_keywords_in_text_def scan_tiers_eq)
  note T = classification_deterministic_and_ordered[OF h1 h2, of 1 example_info "str_of ''Highway''"]
  have same: "search_keywords_in_text literal_engine ?m example_page 1 example_info (str_of ''Highway'')
      = search_keywords_in_text literal_engine example_miner example_page 1 example_info (str_of ''Highway'')"
    using T by blast
  have img: "fs = map (\<lambda>oc. new_match example_page 1 example_info (str_of ''Highway'')
                         (tier_name oc) (pattern_of oc) (span_of oc))
                  (occurrences literal_engine example_page terms (self_keywords example_miner))"
    and srt: "sorted_wrt occurrence_le
       (occurrences literal_engine example_page terms (self_keywords example_miner))"
    using T run by blast+
  show ?thesis using h1 h2 same run img srt h3 by blast
qed

text \<open>
  Claim C7. When every pattern of the catalog compiles, the scan returns one finding for
  each match of each pattern of each tier, carrying the tier, the pattern and the matched
  text of that match, so the number of findings is the total number of matches; nothing
  is merged or dropped. The same holds for \<open>ManualPDFAnalyzer.search_keywords_in_text\<close>.
\<close>

theorem one_finding_per_match:
  assumes "all_compile eng terms (self_keywords self)"
    and "all_compile eng (\<lambda>patterns. patterns) kws"
  shows "(\<exists>fs. search_keywords_in_text eng self txt page_num info committee = Inr fs
      \<and> map (\<lambda>f. (f_priority f, f_keyword_pattern f, f_matched_text f)) fs =
          concat (map (\<lambda>(priority, d). concat (map (\<lambda>p.
              map (\<lambda>m. (priority, p, match_group txt (fst m) (snd m))) (finds eng p txt))
            (terms d))) (self_keywords self))
      \<and> length fs =
          (\<Sum>(priority, d)\<leftarrow>self_keywords self. \<Sum>p\<leftarrow>terms d. length (finds eng p txt)))
    \<and> (\<exists>fs. manual_search_keywords_in_text eng kws txt page_num pdf_name = Inr fs
      \<and> map (\<lambda>f. (m_priority f, m_keyword f, m_matched_text f)) fs =
          concat (map (\<lambda>(priority, patterns). concat (map (\<lambda>p.
              map (\<lambda>m. (priority, p, match_group txt (fst m) (snd m))) (finds eng p txt))
            patterns)) kws)
      \<and> length fs = (\<Sum>(priority, patterns)\<leftarrow>kws. \<Sum>p\<leftarrow>patterns. length (finds eng p txt)))"
proof -
  have len: "length (concat (map (\<lambda>(priority, d). concat (map (\<lambda>p. map (mk priority p) (finds eng p txt)) (gt d))) cat))
     = (\<Sum>(priority, d)\<leftarrow>cat. \<Sum>p\<leftarrow>gt d. length (finds eng p txt))"
    for mk :: "pystr \<Rightarrow> pystr \<Rightarrow> span \<Rightarrow> 'f" and gt :: "'d \<Rightarrow> pystr list" and cat
    by (simp add: length_concat comp_def case_prod_unfold)
  have proj: "map g (concat (map (\<lambda>(priority, d). concat (map (\<lambda>p. map (mk priority p) (finds eng p txt)) (gt d))) cat))
     = concat (map (\<lambda>(priority, d). concat (map (\<lambda>p. map (\<lambda>m. g (mk priority p m)) (finds eng p txt)) (gt d))) cat)"
    for mk :: "pystr \<Rightarrow> pystr \<Rightarrow> span \<Rightarrow> 'f" and gt :: "'d \<Rightarrow> pystr list" and cat and g :: "'f \<Rightarrow> 'g"
    by (simp add: map_concat comp_def case_prod_unfold)
  show ?thesis
    using assms
    by (simp add: search_keywords_in_text_def manual_search_keywords_in_text_def scan_tiers_eq
        len proj new_match_def manual_match_def)
qed

text \<open>
  On the example page \<open>Hamm\<close> occurs three times, and each occurrence is also matched by
  the pattern \<open>hamm\<close> of the second tier: seven findings, none merged.
\<close>

lemma example_all_compile:
  "all_compile literal_engine terms (self_keywords example_miner)"
  "all_compile literal_engine (\<lambda>patterns. patterns) example_manual_catalog"
  by (simp_all add: example_miner_def init_miner_def example_catalog_def example_manual_catalog_def
      all_compile_def literal_engine_def str_of_def plain_char_def)

lemma example_matches:
  "concat (map (\<lambda>(priority, d). concat (map (\<lambda>p.
       map (\<lambda>m. (priority, p, match_group example_page (fst m) (snd m)))
         (finds literal_engine p example_page))
     (terms d))) (self_keywords example_miner)) =
   [(str_of ''priority_1'', str_of ''Hamm'', str_of ''Hamm''),
    (str_of ''priority_1'', str_of ''Hamm'', str_of ''hamm''),
    (str_of ''priority_1'', str_of ''Hamm'', str_of ''HAMM''),
    (str_of ''priority_1'', str_of ''ethics training'', str_of ''ethics training''),
    (str_of ''priority_2'', str_of ''hamm'', str_of ''Hamm''),
    (str_of ''priority_2'', str_of ''hamm'', str_of ''hamm''),
    (str_of ''priority_2'', str_of ''hamm'', str_of ''HAMM'')]"
  by (simp add: example_miner_def init_miner_def example_catalog_def example_page_def
      literal_engine_def str_of_def lower_def match_group_def slice_def slice_bound_def)

theorem one_finding_per_match_witness:
  "all_compile literal_engine terms (self_keywords example_miner)
   \<and> all_compile literal_engine (\<lambda>patterns. patterns) example_manual_catalog
   \<and> (\<exists>fs. search_keywords_in_text literal_engine example_miner example_page 1 example_info
              (str_of ''Highway'') = Inr fs
         \<and> length fs = 7
         \<and> map (\<lambda>f. (f_priority f, f_keyword_pattern f, f_matched_text f)) fs =
             [(str_of ''priority_1'', str_of ''Hamm'', str_of ''Hamm''),
              (str_of ''priority_1'', str_of ''Hamm'', str_of ''hamm''),
              (str_of ''priority_1'', str_of ''Hamm'', str_of ''HAMM''),
              (str_of ''priority_1'', str_of ''ethics training'', str_of ''ethics training''),
              (str_of ''priority_2'', str_of ''hamm'', str_of ''Hamm''),
              (str_of ''priority_2'', str_of ''hamm'', str_of ''hamm''),
              (str_of ''priority_2'', str_of ''hamm'', str_of ''HAMM'')])"
proof -
  from one_finding_per_match[OF example_all_compile, of example_page 1 example_info
      "str_of ''Highway''" "str_of ''minutes.pdf''"]
  obtain fs where fs: "search_keywords_in_text literal_engine example_miner example_page 1 example_info
              (str_of ''Highway'') = Inr fs"
    and m: "map (\<lambda>f. (f_priority f, f_keyword_pattern f, f_matched_text f)) fs =
      concat (map (\<lambda>(priority, d). concat (map (\<lambda>p.
       map (\<lambda>m. (priority, p, match_group example_page (fst m) (snd m)))
         (finds literal_engine p example_page))
     (terms d))) (self_keywords example_miner))"
    by blast
  have "length (map (\<lambda>f. (f_priority f, f_keyword_pattern f, f_matched_text f)) fs) = 7"
    unfolding m example_matches by simp
  then have "length fs = 7" by simp
  then show ?thesis using example_all_compile fs m example_matches by simp
qed

text \<open>
  Claim C9, as amended. The constructor accepts every catalog: it stores the catalog it
  is given and compiles nothing. A pattern that is not a regular expression makes
  \<open>search_keywords_in_text\<close> raise \<open>re.error\<close>, on every page it is asked to scan, and the
  scan returns findings exactly when every pattern of the catalog compiles.
\<close>

theorem malformed_pattern_raises_during_scan:
  "self_keywords (init_miner coms cat dir) = cat
   \<and> (search_keywords_in_text eng (init_miner coms cat dir) txt page_num info committee = Inl Re_error)
       = (\<not> all_compile eng terms cat)
   \<and> (\<exists>fs. search_keywords_in_text eng (init_miner coms cat dir) txt page_num info committee = Inr fs)
       = all_compile eng terms cat"
  by (simp add: init_miner_def search_keywords_in_text_def scan_tiers_eq)

text \<open>
  Against claim C9 as stated: a catalog whose second pattern is \<open>(\<close> is accepted by the
  constructor; the scan of a page finds the matches of the first pattern and then raises.
\<close>

theorem malformed_pattern_accepted_at_load:
  "self_keywords (init_miner [] broken_catalog (str_of ''dekalb_pdfs'')) = broken_catalog
   \<and> re_finditer literal_engine (str_of ''Hamm'') example_page = Inr [(0, 4), (9, 13), (18, 22)]
   \<and> re_finditer literal_engine (str_of ''('') example_page = Inl Re_error
   \<and> search_keywords_in_text literal_engine (init_miner [] broken_catalog (str_of ''dekalb_pdfs''))
        example_page 1 example_info (str_of ''Highway'') = Inl Re_error"
  by (simp add: init_miner_def search_keywords_in_text_def broken_catalog_def re_finditer_def
      literal_engine_def str_of_def plain_char_def lower_def example_page_def)

theorem malformed_pattern_raises_during_scan_witness:
  "\<not> all_compile literal_engine terms broken_catalog
   \<and> search_keywords_in_text literal_engine (init_miner [] broken_catalog (str_of ''dekalb_pdfs''))
        minutes_page 3 refused_info (str_of ''Executive'') = Inl Re_error"
proof -
  have "\<not> all_compile literal_engine terms broken_catalog"
    by (simp add: all_compile_def broken_catalog_def literal_engine_def plain_char_def str_of_def)
  then show ?thesis
    using malformed_pattern_raises_during_scan[of "[]" broken_catalog "str_of ''dekalb_pdfs''"
        literal_engine minutes_page 3 refused_info "str_of ''Executive''"]
    by simp
qed

subsection \<open>The context of a finding\<close>

lemma occurrences_spans_inside:
  assumes "spans_inside eng txt gt cat" and "oc \<in> set (occurrences eng txt gt cat)"
  shows "fst (span_of oc) \<le> snd (span_of oc) \<and> snd (span_of oc) \<le> length txt"
proof -
  from assms(2) obtain it where it: "it \<in> set (enumerate 0 cat)"
    and 1: "oc \<in> set (tier_occurrences eng txt gt it)"
    by (auto simp: occurrences_def)
  from 1 obtain jp where jp: "jp \<in> set (enumerate 0 (gt (snd (snd it))))"
    and 2: "oc \<in> set (pattern_occurrences eng txt (fst it) (fst (snd it)) jp)"
    by (auto simp: tier_occurrences_def)
  from 2 have m: "span_of oc \<in> set (finds eng (snd jp) txt)"
    by (auto simp: pattern_occurrences_def)
  have t: "snd it \<in> set cat"
    using it nth_mem[of "fst it" cat] by (auto simp: in_set_enumerate_eq)
  have p: "snd jp \<in> set (gt (snd (snd it)))"
    using jp nth_mem[of "fst jp" "gt (snd (snd it))"] by (auto simp: in_set_enumerate_eq)
  from assms(1) t have "list_all (\<lambda>p. list_all (\<lambda>m. fst m \<le> snd m \<and> snd m \<le> length txt)
      (finds eng p txt)) (gt (snd (snd it)))"
    by (cases "snd it") (force simp: spans_inside_def list_all_iff)
  with p m show ?thesis by (auto simp: list_all_iff)
qed

text \<open>
  Claim C6. When the library reports spans inside the page and the scan returns, its
  findings correspond one by one, in order, to the match occurrences, and for each
  finding, with \<open>(s, e)\<close> the span of its occurrence: the matched text is \<open>text[s:e]\<close>; the
  bounds of the slice lie inside the text; the context is the window of the
  specification (the up to 300 characters before the span, the span, the up to 300
  characters after it) with every run of whitespace replaced by one space and none left
  at either end, so it has no two spaces in a row, its only whitespace characters are
  single spaces and its other characters are those of the window, in order.
\<close>

theorem context_window_correct:
  assumes "spans_inside eng txt terms (self_keywords self)"
    and "search_keywords_in_text eng self txt page_num info committee = Inr fs"
  shows "list_all2 (\<lambda>f oc.
            f_matched_text f = take (snd (span_of oc) - fst (span_of oc)) (drop (fst (span_of oc)) txt)
          \<and> 0 \<le> context_start (fst (span_of oc))
          \<and> context_end txt (snd (span_of oc)) \<le> int (length txt)
          \<and> f_context f =
              join [32] (split (spec_window txt (fst (span_of oc)) (snd (span_of oc))))
          \<and> \<not> has_space_run (f_context f)
          \<and> (\<forall>c\<in>set (f_context f). isspace c \<longrightarrow> c = 32)
          \<and> filter (\<lambda>c. \<not> isspace c) (f_context f) =
              filter (\<lambda>c. \<not> isspace c) (spec_window txt (fst (span_of oc)) (snd (span_of oc))))
         fs (occurrences eng txt terms (self_keywords self))"
proof -
  let ?occs = "occurrences eng txt terms (self_keywords self)"
  let ?g = "\<lambda>oc. new_match txt page_num info committee (tier_name oc) (pattern_of oc) (span_of oc)"
  have fs: "fs = map ?g ?occs"
    using assms(2)
    by (simp add: search_keywords_in_text_def scan_tiers_eq map_occurrences split: if_splits)
  have each: "f_matched_text (?g oc) = take (snd (span_of oc) - fst (span_of oc)) (drop (fst (span_of oc)) txt)
          \<and> 0 \<le> context_start (fst (span_of oc))
          \<and> context_end txt (snd (span_of oc)) \<le> int (length txt)
          \<and> f_context (?g oc) =
              join [32] (split (spec_window txt (fst (span_of oc)) (snd (span_of oc))))
          \<and> \<not> has_space_run (f_context (?g oc))
          \<and> (\<forall>c\<in>set (f_context (?g oc)). isspace c \<longrightarrow> c = 32)
          \<and> filter (\<lambda>c. \<not> isspace c) (f_context (?g oc)) =
              filter (\<lambda>c. \<not> isspace c) (spec_window txt (fst (span_of oc)) (snd (span_of oc)))"
    if "oc \<in> set ?occs" for oc
  proof -
    from occurrences_spans_inside[OF assms(1) that]
    have le: "fst (span_of oc) \<le> snd (span_of oc)" "snd (span_of oc) \<le> length txt" by simp_all
    have fc: "f_context (?g oc) = context_of txt (fst (span_of oc)) (snd (span_of oc))"
      and fm: "f_matched_text (?g oc) = match_group txt (fst (span_of oc)) (snd (span_of oc))"
      by (simp_all add: new_match_def)
    show ?thesis
      unfolding fc fm using context_of_correct[OF le] by blast
  qed
  show ?thesis
    unfolding fs list_all2_map1
    by (rule list.rel_refl_strong) (use each in blast)
qed

text \<open>
  On \<open>long_page\<close> the window is clipped on both sides: the context of both findings is
  \<open>long_context\<close>, 600 characters without the letters \<open>A\<close> and \<open>B\<close> and with single spaces
  around \<open>Hamm\<close>.
\<close>

lemma literal_scan_replicate:
  "lower ph \<noteq> lower c \<Longrightarrow>
   literal_scan (ph # pt) (replicate n c @ rest) pos 0 = literal_scan (ph # pt) rest (pos + n) 0"
  by (induction n arbitrary: pos) simp_all

lemma literal_scan_replicate_end:
  "lower ph \<noteq> lower c \<Longrightarrow> literal_scan (ph # pt) (replicate n c) pos 0 = []"
  using literal_scan_replicate[of ph c pt n "[]" pos] by simp

lemma split_from_replicate:
  "\<not> isspace c \<Longrightarrow> split_from w (replicate n c @ rest) = split_from (w @ replicate n c) rest"
proof (induction n arbitrary: w)
  case 0
  then show ?case by simp
next
  case (Suc n)
  have "w @ [c] @ replicate n c = w @ replicate (Suc n) c" by simp
  then show ?case using Suc by (simp del: replicate_Suc add: replicate_Suc[symmetric]) (simp add: Suc)
qed

lemma long_window_length: "length long_window = 604"
  by (simp add: long_window_def str_of_def)

lemma long_page_length: "length long_page = 624"
  by (simp add: long_page_def long_window_length)

lemma long_page_finds:
  "finds literal_engine (str_of ''Hamm'') long_page = [(310, 314)]"
  "finds literal_engine (str_of ''hamm'') long_page = [(310, 314)]"
  "finds literal_engine (str_of ''ethics training'') long_page = []"
  by (simp_all add: literal_engine_def long_page_def long_window_def str_of_def
      literal_scan_replicate literal_scan_replicate_end lower_def)

lemma long_page_window: "spec_window long_page 310 314 = long_window"
proof -
  have "context_window long_page 310 314 = long_window"
    by (simp add: context_window_take_drop long_page_length)
       (simp add: long_page_def long_window_length)
  moreover have "context_window long_page 310 314 = spec_window long_page 310 314"
    using context_of_correct[of 310 314 long_page] by (simp add: long_page_length)
  ultimately show ?thesis by simp
qed

lemma long_window_context: "join [32] (split long_window) = long_context"
  by (simp add: split_def long_window_def long_context_def str_of_def split_from_replicate
      isspace_def)

lemma long_page_spans_inside:
  "spans_inside literal_engine long_page terms (self_keywords example_miner)"
  by (simp add: spans_inside_def example_miner_def init_miner_def example_catalog_def
      long_page_finds long_page_length)

lemma long_page_occurrences:
  "map span_of (occurrences literal_engine long_page terms (self_keywords example_miner)) =
     [(310, 314), (310, 314)]"
  by (simp add: occurrences_def tier_occurrences_def pattern_occurrences_def enumerate_eq_zip
      example_miner_def init_miner_def example_catalog_def long_page_finds)

theorem context_window_correct_witness:
  "spans_inside literal_engine long_page terms (self_keywords example_miner)
   \<and> (\<exists>fs. search_keywords_in_text literal_engine example_miner long_page 1 example_info
              (str_of ''Highway'') = Inr fs
         \<and> map f_context fs = [long_context, long_context])
   \<and> spec_window long_page 310 314 = long_window
   \<and> length long_page = 624 \<and> length long_window = 604 \<and> length long_context = 600
   \<and> \<not> has_space_run long_context"
proof -
  have ok: "all_compile literal_engine terms (self_keywords example_miner)"
    by (simp add: example_miner_def init_miner_def example_catalog_def all_compile_def
        literal_engine_def str_of_def plain_char_def)
  obtain fs where run: "search_keywords_in_text literal_engine example_miner long_page 1
       example_info (str_of ''Highway'') = Inr fs"
    using ok by (simp add: search_keywords_in_text_def scan_tiers_eq)
  let ?P = "\<lambda>f m. f_context f = join [32] (split (spec_window long_page (fst m) (snd m)))
       \<and> \<not> has_space_run (f_context f)"
  have "list_all2 (\<lambda>f oc. ?P f (span_of oc)) fs
      (occurrences literal_engine long_page terms (self_keywords example_miner))"
    by (rule list_all2_mono[OF context_window_correct[OF long_page_spans_inside run]]) blast
  then have "list_all2 ?P fs [(310, 314), (310, 314)]"
    unfolding long_page_occurrences[symmetric] list_all2_map2 .
  then obtain f1 f2 where fs: "fs = [f1, f2]" and c: "f_context f1 = long_context"
    "f_context f2 = long_context" and r: "\<not> has_space_run (f_context f1)"
    by (auto simp: list_all2_Cons2 long_page_window long_window_context)
  have "length long_context = 600" by (simp add: long_context_def str_of_def)
  then show ?thesis
    using long_page_spans_inside run fs c r long_page_window long_page_length long_window_length
    by simp
qed

section \<open>Properties of the extraction pipeline\<close>

lemma retain_above:
  "all_above_threshold text_pages \<Longrightarrow> all_above_threshold (retain i t text_pages)"
  by (cases t) (simp_all add: retain_def all_above_threshold_def)

lemma extract_pages_above:
  "all_above_threshold text_pages \<Longrightarrow> all_above_threshold (fst (extract_pages pages i text_pages))"
  by (induction pages i text_pages rule: extract_pages.induct) (simp_all add: retain_above)

lemma extract_pages_guarded_above:
  "all_above_threshold text_pages \<Longrightarrow>
   all_above_threshold (fst (extract_pages_guarded pages i text_pages events))"
  by (induction pages i text_pages events rule: extract_pages_guarded.induct)
     (simp_all add: retain_above)

lemma above_Nil: "all_above_threshold []"
  by (simp add: all_above_threshold_def)

lemma ocr_pdf_above: "all_above_threshold (fst (ocr_pdf f))"
proof (cases "ocr_pages f")
  case (Inl e)
  then show ?thesis by (simp add: ocr_pdf_def above_Nil)
next
  case (Inr images)
  obtain tp r where x: "extract_pages images 1 [] = (tp, r)" by (cases "extract_pages images 1 []")
  then have "all_above_threshold tp"
    using extract_pages_above[OF above_Nil, of images 1] by simp
  then show ?thesis using Inr x by (cases r) (simp_all add: ocr_pdf_def)
qed

lemma extract_text_from_pdf_above: "all_above_threshold (fst (extract_text_from_pdf f))"
proof (cases "pdfplumber_pages f")
  case (Inl e)
  then show ?thesis by (simp add: extract_text_from_pdf_def above_Nil)
next
  case (Inr pages)
  obtain tp r where x: "extract_pages pages 1 [] = (tp, r)" by (cases "extract_pages pages 1 []")
  then have tp: "all_above_threshold tp"
    using extract_pages_above[OF above_Nil, of pages 1] by simp
  show ?thesis
  proof (cases r)
    case (Some e)
    then show ?thesis using Inr x tp by (simp add: extract_text_from_pdf_def)
  next
    case None
    show ?thesis
    proof (cases "tp = []")
      case False
      then show ?thesis using Inr x tp None by (simp add: extract_text_from_pdf_def)
    next
      case True
      show ?thesis
      proof (cases "pypdf2_pages f")
        case (Inl e)
        then show ?thesis using Inr x None True by (simp add: extract_text_from_pdf_def above_Nil)
      next
        case pages2: (Inr pages2)
        obtain tp2 r2 where y: "extract_pages pages2 1 [] = (tp2, r2)"
          by (cases "extract_pages pages2 1 []")
        then have tp2: "all_above_threshold tp2"
          using extract_pages_above[OF above_Nil, of pages2 1] by simp
        obtain ot evs where z: "ocr_pdf f = (ot, evs)" by (cases "ocr_pdf f")
        then have "all_above_threshold ot" using ocr_pdf_above[of f] by simp
        then show ?thesis
          using Inr x None True pages2 y tp2 z
          by (cases r2) (simp_all add: extract_text_from_pdf_def)
      qed
    qed
  qed
qed

lemma fixed_extract_text_from_pdf_above:
  "all_above_threshold (fst (fixed_extract_text_from_pdf b f))"
proof -
  have 1: "all_above_threshold (fst (extract_pages pages (Suc 0) []))" for pages
    by (rule extract_pages_above[OF above_Nil])
  have 2: "all_above_threshold tp" if "extract_pages pages (Suc 0) [] = (tp, r)" for pages tp r
    using 1[of pages] that by simp
  show ?thesis
    by (auto simp: fixed_extract_text_from_pdf_def above_Nil 1 dest: 2
        split: sum.splits prod.splits option.splits)
qed

lemma manual_extract_text_from_pdf_above:
  "all_above_threshold (fst (manual_extract_text_from_pdf f))"
  by (cases "pypdf2_pages f")
     (simp_all add: manual_extract_text_from_pdf_def above_Nil extract_pages_guarded_above)

text \<open>
  Claim C3. Every page in the result of an extraction has more than 50 characters once
  trimmed, whatever the file and whichever strategy produced the page: for
  \<open>extract_text_from_pdf\<close> of \<open>tool.py\<close> (with \<open>ocr_pdf\<close>), of \<open>pdf_miner_fixed.py\<close> and of
  \<open>manual_pdf_analyzer.py\<close>.
\<close>

theorem retained_pages_above_threshold:
  "(\<forall>(i, t)\<in>set (fst (extract_text_from_pdf f)). 50 < length (strip t))
   \<and> (\<forall>(i, t)\<in>set (fst (ocr_pdf f)). 50 < length (strip t))
   \<and> (\<forall>(i, t)\<in>set (fst (fixed_extract_text_from_pdf has_pdfplumber f)). 50 < length (strip t))
   \<and> (\<forall>(i, t)\<in>set (fst (manual_extract_text_from_pdf f)). 50 < length (strip t))"
  using extract_text_from_pdf_above[of f] ocr_pdf_above[of f]
    fixed_extract_text_from_pdf_above[of has_pdfplumber f] manual_extract_text_from_pdf_above[of f]
  unfolding all_above_threshold_def list_all_iff by blast

text \<open>The concrete page texts: 60 and 50 characters once trimmed.\<close>

lemma long_text_strip: "strip long_text = replicate 60 97"
  by (simp add: long_text_def strip_def isspace_def)

lemma dropWhile_replicate_append: "P x \<Longrightarrow> dropWhile P (replicate n x @ ys) = dropWhile P ys"
  by (induction n) auto

lemma dropWhile_replicate_stop:
  "\<not> P x \<Longrightarrow> 0 < n \<Longrightarrow> dropWhile P (replicate n x @ ys) = replicate n x @ ys"
  by (cases n) auto

lemma short_text_strip: "strip short_text = replicate 50 97"
  by (simp add: short_text_def strip_def isspace_def dropWhile_replicate_append
      dropWhile_replicate_stop)

lemma retain_long: "retain i (Some long_text) tp = tp @ [(i, long_text)]"
  by (simp add: retain_def long_text_strip) (simp add: long_text_def)

lemma retain_short: "retain i (Some short_text) tp = tp"
  by (simp add: retain_def short_text_strip)

lemma retain_none: "retain i None tp = tp" "retain i (Some []) tp = tp"
  by (simp_all add: retain_def)

lemmas retain_examples = retain_long retain_short retain_none

theorem retained_pages_above_threshold_witness:
  "fst (extract_text_from_pdf text_file) = [(2, long_text)]
   \<and> fst (extract_text_from_pdf scanned_file) = [(2, long_text)]
   \<and> fst (manual_extract_text_from_pdf first_page_broken_file) = [(2, long_text)]
   \<and> 50 < length (strip long_text) \<and> length (strip short_text) = 50"
proof -
  have 1: "fst (extract_text_from_pdf text_file) = [(2, long_text)]"
    by (simp add: extract_text_from_pdf_def text_file_def retain_examples)
  have 2: "fst (extract_text_from_pdf scanned_file) = [(2, long_text)]"
    by (simp add: extract_text_from_pdf_def ocr_pdf_def scanned_file_def retain_examples)
  have 3: "fst (manual_extract_text_from_pdf first_page_broken_file) = [(2, long_text)]"
    by (simp add: manual_extract_text_from_pdf_def first_page_broken_file_def retain_examples)
  have "50 < length (strip long_text)"
    using retained_pages_above_threshold[of text_file] 1 by simp
  then show ?thesis using 1 2 3 by (simp add: short_text_strip)
qed

text \<open>The strategies \<open>extract_text_from_pdf\<close> of \<open>tool.py\<close> invokes, case by case.\<close>

lemma ocr_pdf_invoked: "invoked (snd (ocr_pdf f)) = [OCR]"
  by (auto simp: ocr_pdf_def split: sum.splits prod.splits option.splits)

lemma extract_text_from_pdf_cases:
  "invoked (snd (extract_text_from_pdf f)) =
     (if strategy_retains (pdfplumber_pages f) \<noteq> [] then [Pdfplumber]
      else case pdfplumber_pages f of
        Inl e \<Rightarrow> [Pdfplumber]
      | Inr pages \<Rightarrow>
          (case snd (extract_pages pages 1 []) of
             Some e \<Rightarrow> [Pdfplumber]
           | None \<Rightarrow>
               if strategy_retains (pypdf2_pages f) \<noteq> [] then [Pdfplumber, PyPDF2]
               else case pypdf2_pages f of
                 Inl e \<Rightarrow> [Pdfplumber, PyPDF2]
               | Inr pages2 \<Rightarrow>
                   (case snd (extract_pages pages2 1 []) of
                      Some e \<Rightarrow> [Pdfplumber, PyPDF2]
                    | None \<Rightarrow> [Pdfplumber, PyPDF2, OCR])))"
proof (cases "pdfplumber_pages f")
  case (Inl e)
  then show ?thesis by (simp add: extract_text_from_pdf_def strategy_retains_def)
next
  case (Inr pages)
  obtain tp r where x: "extract_pages pages 1 [] = (tp, r)" by (cases "extract_pages pages 1 []")
  show ?thesis
  proof (cases r)
    case (Some e)
    then show ?thesis using Inr x by (simp add: extract_text_from_pdf_def strategy_retains_def)
  next
    case None
    show ?thesis
    proof (cases "tp = []")
      case False
      then show ?thesis using Inr x None by (simp add: extract_text_from_pdf_def strategy_retains_def)
    next
      case True
      show ?thesis
      proof (cases "pypdf2_pages f")
        case (Inl e)
        then show ?thesis using Inr x None True
          by (simp add: extract_text_from_pdf_def strategy_retains_def)
      next
        case pages2: (Inr pages2)
        obtain tp2 r2 where y: "extract_pages pages2 1 [] = (tp2, r2)"
          by (cases "extract_pages pages2 1 []")
        obtain ot evs where z: "ocr_pdf f = (ot, evs)" by (cases "ocr_pdf f")
        then have "invoked evs = [OCR]" using ocr_pdf_invoked[of f] by simp
        then show ?thesis
          using Inr x None True pages2 y z
          by (cases r2) (simp_all add: extract_text_from_pdf_def strategy_retains_def)
      qed
    qed
  qed
qed

text \<open>
  Claim C2. In \<open>extract_text_from_pdf\<close> of \<open>tool.py\<close>: when \<open>pdfplumber\<close> retains a page,
  it is the only strategy invoked; \<open>PyPDF2\<close> is invoked only when \<open>pdfplumber\<close> retains
  no page, and OCR only when neither \<open>pdfplumber\<close> nor \<open>PyPDF2\<close> retains one; the
  strategies invoked are always a beginning of the chain \<open>pdfplumber\<close>, \<open>PyPDF2\<close>, OCR.
\<close>

theorem fallback_chain_short_circuits:
  "(strategy_retains (pdfplumber_pages f) \<noteq> [] \<longrightarrow>
      invoked (snd (extract_text_from_pdf f)) = [Pdfplumber])
   \<and> (PyPDF2 \<in> set (invoked (snd (extract_text_from_pdf f))) \<longrightarrow>
      strategy_retains (pdfplumber_pages f) = [])
   \<and> (OCR \<in> set (invoked (snd (extract_text_from_pdf f))) \<longrightarrow>
      strategy_retains (pdfplumber_pages f) = [] \<and> strategy_retains (pypdf2_pages f) = [])
   \<and> invoked (snd (extract_text_from_pdf f)) \<in>
        {[Pdfplumber], [Pdfplumber, PyPDF2], [Pdfplumber, PyPDF2, OCR]}"
  unfolding extract_text_from_pdf_cases
  by (simp split: sum.splits option.splits)

theorem fallback_chain_short_circuits_witness:
  "strategy_retains (pdfplumber_pages text_file) \<noteq> []
   \<and> invoked (snd (extract_text_from_pdf text_file)) = [Pdfplumber]
   \<and> OCR \<in> set (invoked (snd (extract_text_from_pdf scanned_file)))
   \<and> PyPDF2 \<in> set (invoked (snd (extract_text_from_pdf scanned_file)))
   \<and> strategy_retains (pdfplumber_pages scanned_file) = []
   \<and> strategy_retains (pypdf2_pages scanned_file) = []"
proof -
  have 1: "strategy_retains (pdfplumber_pages text_file) \<noteq> []"
    by (simp add: strategy_retains_def text_file_def retain_examples)
  have 2: "invoked (snd (extract_text_from_pdf scanned_file)) = [Pdfplumber, PyPDF2, OCR]"
    by (simp add: extract_text_from_pdf_def ocr_pdf_def scanned_file_def retain_examples)
  show ?thesis
    using fallback_chain_short_circuits[of text_file] fallback_chain_short_circuits[of scanned_file]
      1 2 by simp
qed

text \<open>
  A page that raises: the loop of \<open>tool.py\<close> and \<open>pdf_miner_fixed.py\<close> ends there, with
  the exception, whatever pages follow; the loop of \<open>manual_pdf_analyzer.py\<close> goes on
  with the pages that follow.
\<close>

lemma extract_pages_stops_at_failure:
  "extract_pages (map Inr ts @ Inl e # rest) i text_pages =
     (fst (extract_pages (map Inr ts) i text_pages), Some e)"
  by (induction ts arbitrary: i text_pages) simp_all

lemma extract_pages_guarded_skips_failure:
  "fst (extract_pages_guarded (Inl e # rest) i text_pages events) =
   fst (extract_pages_guarded rest (Suc i) text_pages events')"
proof -
  have "fst (extract_pages_guarded pages j tp ev) = fst (extract_pages_guarded pages j tp ev')"
    for pages j tp ev ev'
    by (induction pages j tp ev arbitrary: ev' rule: extract_pages_guarded.induct) simp_all
  then show ?thesis by simp
qed

text \<open>
  Claim C4, on a file whose first page raises in both text-layer libraries and whose
  second page has text: \<open>tool.py\<close> and \<open>pdf_miner_fixed.py\<close> return no page at all (the
  second page is never read), while \<open>manual_pdf_analyzer.py\<close> reports page 1 and returns
  page 2.
\<close>

theorem page_failure_aborts_extraction:
  "extract_text_from_pdf first_page_broken_file = ([], [Invoked Pdfplumber, Logged_error Pdf_error])
   \<and> fixed_extract_text_from_pdf True first_page_broken_file =
       ([], [Invoked Pdfplumber, Invoked PyPDF2, Logged_error Pdf_error])
   \<and> manual_extract_text_from_pdf first_page_broken_file =
       ([(2, long_text)], [Invoked PyPDF2, Warned 1])"
  by (simp add: extract_text_from_pdf_def fixed_extract_text_from_pdf_def
      manual_extract_text_from_pdf_def first_page_broken_file_def retain_examples)

section \<open>Properties of the fetch engine\<close>

lemma request_count_emit:
  "request_count (emit evs w) = request_count w + length (filter is_request evs)"
  by (simp add: request_count_def emit_def)



text \<open>
  The retry loop: a response it returns has status 200, and an attempt that is not
  answered by a complete 200 response leads to the next attempt, one request later.
\<close>

lemma retry_loop_200:
  "fst (retry_loop net u m as w) = Some r \<Longrightarrow> status_code r = 200"
proof (induction as arbitrary: w)
  case Nil
  then show ?case by simp
next
  case (Cons a as)
  then show ?case
    by (auto simp: session_get_def split: prod.splits sum.splits if_splits reply.splits)
qed

lemma retry_continue:
  assumes "\<not> answers_200 (net (request_count w) u)"
  shows "\<exists>evs. filter is_request evs = [] \<and>
     retry_loop net u m (a # as) w =
       retry_loop net u m as (emit evs (emit [Requested u] (emit [Slept 2 5, Headers_updated] w)))"
proof -
  let ?w2 = "emit [Requested u] (emit [Slept 2 5, Headers_updated] w)"
  have c: "request_count (emit [Slept 2 5, Headers_updated] w) = request_count w"
    by (simp add: request_count_emit)
  have e0: "retry_loop net u m as ?w2 = retry_loop net u m as (emit [] ?w2)"
    by (simp add: emit_def)
  show ?thesis
  proof (cases "net (request_count w) u")
    case No_response
    then have "retry_loop net u m (a # as) w =
        retry_loop net u m as (emit (Log_exception Connection_error #
           (if int a < m - 1 then [Slept 5 10] else [])) ?w2)"
      by (simp add: session_get_def c after_exception_def)
    then show ?thesis by (intro exI[of _ "Log_exception Connection_error #
           (if int a < m - 1 then [Slept 5 10] else [])"]) simp
  next
    case (Response r)
    show ?thesis
    proof (cases "broken r")
      case True
      then have "retry_loop net u m (a # as) w =
        retry_loop net u m as (emit (Log_exception Connection_error #
           (if int a < m - 1 then [Slept 5 10] else [])) ?w2)"
        using Response by (simp add: session_get_def c after_exception_def)
      then show ?thesis by (intro exI[of _ "Log_exception Connection_error #
           (if int a < m - 1 then [Slept 5 10] else [])"]) simp
    next
      case False
      then have s: "status_code r \<noteq> 200" using assms Response by (simp add: answers_200_def)
      show ?thesis
      proof (cases "status_code r = 403")
        case True
        then have "retry_loop net u m (a # as) w =
          retry_loop net u m as (emit (Log_warning #
                 (if int a < m - 1 then [Log_info, Slept 10 20, Cookies_cleared] else [])) ?w2)"
          using Response False by (simp add: session_get_def c)
        then show ?thesis by (intro exI[of _ "Log_warning #
                 (if int a < m - 1 then [Log_info, Slept 10 20, Cookies_cleared] else [])"]) simp
      next
        case n403: False
        show ?thesis
        proof (cases "400 \<le> status_code r \<and> status_code r < 600")
          case True
          then have "retry_loop net u m (a # as) w =
            retry_loop net u m as (emit (Log_exception (HTTP_error (status_code r)) #
               (if int a < m - 1 then [Slept 5 10] else [])) ?w2)"
            using Response False s n403
            by (simp add: session_get_def c after_exception_def raise_for_status_def)
          then show ?thesis by (intro exI[of _ "Log_exception (HTTP_error (status_code r)) #
               (if int a < m - 1 then [Slept 5 10] else [])"]) simp
        next
          case ok: False
          then have "retry_loop net u m (a # as) w = retry_loop net u m as (emit [] ?w2)"
            using Response False s n403 e0
            by (auto simp: session_get_def c raise_for_status_def)
          then show ?thesis by (intro exI[of _ "[]"]) simp
        qed
      qed
    qed
  qed
qed

lemma retry_loop_never:
  "list_all (\<lambda>k. \<not> answers_200 (net (request_count w + k) u)) [0..<length as] \<Longrightarrow>
   fst (retry_loop net u m as w) = None \<and>
   request_count (snd (retry_loop net u m as w)) = request_count w + length as"
proof (induction as arbitrary: w)
  case Nil
  then show ?case by simp
next
  case (Cons a as)
  have all: "\<forall>k<Suc (length as). \<not> answers_200 (net (request_count w + k) u)"
    using Cons.prems by (auto simp: list_all_iff less_Suc_eq)
  then have 0: "\<not> answers_200 (net (request_count w) u)" by force
  from retry_continue[of net w u m a as] 0 obtain evs where evs: "filter is_request evs = []"
    and step: "retry_loop net u m (a # as) w =
       retry_loop net u m as (emit evs (emit [Requested u] (emit [Slept 2 5, Headers_updated] w)))"
    by blast
  let ?w3 = "emit evs (emit [Requested u] (emit [Slept 2 5, Headers_updated] w))"
  have c3: "request_count ?w3 = Suc (request_count w)"
    using evs by (simp add: request_count_emit)
  have "\<not> answers_200 (net (Suc (request_count w + k)) u)" if "k < length as" for k
    using all[rule_format, of "Suc k"] that by simp
  then have "list_all (\<lambda>k. \<not> answers_200 (net (request_count ?w3 + k) u)) [0..<length as]"
    by (simp add: list_all_iff c3)
  from Cons.IH[OF this] show ?case unfolding step c3 by simp
qed

text \<open>
  Claim C10. A response that \<open>get_page_with_retry\<close> returns has status 200. When none
  of the \<open>max_retries\<close> attempts is answered by a complete response with status 200
  (whatever else the server does: another status, 2xx included, or no answer), the
  result is \<open>None\<close>, after exactly \<open>max_retries\<close> requests (none when \<open>max_retries \<le> 0\<close>).
\<close>

theorem get_page_with_retry_returns_only_200:
  "(\<forall>r. fst (get_page_with_retry net u max_retries w) = Some r \<longrightarrow> status_code r = 200)
   \<and> (never_200 net u w (nat max_retries) \<longrightarrow>
        fst (get_page_with_retry net u max_retries w) = None
        \<and> request_count (snd (get_page_with_retry net u max_retries w)) =
            request_count w + nat max_retries)"
  using retry_loop_200[of net u max_retries "[0..<nat max_retries]" w]
    retry_loop_never[of net w u "[0..<nat max_retries]" max_retries]
  by (simp add: get_page_with_retry_def never_200_def)

text \<open>
  With the server that answers the third request the page is returned; with the server
  that always refuses the result is \<open>None\<close> after three requests.
\<close>

lemma upt3: "[0..<3] = [0, 1, 2]"
  by (simp add: upt_rec)

lemma flaky_result: "fst (get_page_with_retry flaky_net listing_url 3 empty_world) = Some listing_page"
  by (simp add: get_page_with_retry_def upt3 flaky_net_def session_get_def request_count_def emit_def
      empty_world_def error_response_def after_exception_def listing_page_def)

lemma forbidden_never: "never_200 forbidden_net listing_url empty_world 3"
  by (simp add: never_200_def forbidden_net_def answers_200_def error_response_def upt_rec)

theorem get_page_with_retry_returns_only_200_witness:
  "fst (get_page_with_retry flaky_net listing_url 3 empty_world) = Some listing_page
   \<and> status_code listing_page = 200
   \<and> never_200 forbidden_net listing_url empty_world 3
   \<and> fst (get_page_with_retry forbidden_net listing_url 3 empty_world) = None
   \<and> request_count (snd (get_page_with_retry forbidden_net listing_url 3 empty_world)) = 3"
  using get_page_with_retry_returns_only_200[of flaky_net listing_url 3 empty_world]
    get_page_with_retry_returns_only_200[of forbidden_net listing_url 3 empty_world]
    flaky_result forbidden_never
  by (simp add: request_count_def empty_world_def)










section \<open>Properties of the mining coordinator\<close>

lemma scan_pages_results:
  "scan_pages eng self info cname pages = Inr self' \<Longrightarrow>
   \<exists>fs. self' = self\<lparr>results := results self @ fs\<rparr>"
proof (induction pages arbitrary: self)
  case Nil
  then have "self' = self\<lparr>results := results self @ []\<rparr>" by simp
  then show ?case by blast
next
  case (Cons a pages)
  obtain page_num t where a: "a = (page_num, t)" by (cases a)
  from Cons.prems obtain ms where
    ms: "search_keywords_in_text eng self t page_num info cname = Inr ms"
    and rest: "scan_pages eng (self\<lparr>results := results self @ ms\<rparr>) info cname pages = Inr self'"
    by (auto simp: a split: sum.splits)
  from Cons.IH[OF rest] obtain fs where
    "self' = self\<lparr>results := results self @ ms\<rparr>\<lparr>results := results (self\<lparr>results := results self @ ms\<rparr>) @ fs\<rparr>"
    by blast
  then have "self' = self\<lparr>results := results self @ (ms @ fs)\<rparr>" by simp
  then show ?case by blast
qed

lemma process_pdfs_results:
  "process_pdfs env ckey bucket cname pdfs self w = Inr (self', w') \<Longrightarrow>
   \<exists>fs. self' = self\<lparr>results := results self @ fs\<rparr>"
proof (induction pdfs arbitrary: self w)
  case Nil
  then have "self' = self\<lparr>results := results self @ []\<rparr>" by simp
  then show ?case by blast
next
  case (Cons info pdfs)
  let ?p = "os_path_join (base_dir self) [ckey, bucket, filename info]"
  obtain ok w1 where d: "download_pdf (env_net env) info ?p w = (ok, w1)"
    by (cases "download_pdf (env_net env) info ?p w")
  show ?case
  proof (cases ok)
    case False
    then have "process_pdfs env ckey bucket cname pdfs self w1 = Inr (self', w')"
      using Cons.prems d by simp
    then show ?thesis by (rule Cons.IH)
  next
    case True
    then obtain self1 where
      s: "scan_pages (env_regex env) self info cname
            (fst (fixed_extract_text_from_pdf (env_has_pdfplumber env)
                    (env_read_pdf env (files w1 ?p)))) = Inr self1"
      and r: "process_pdfs env ckey bucket cname pdfs self1 w1 = Inr (self', w')"
      using Cons.prems d by (auto split: sum.splits)
    from scan_pages_results[OF s] obtain fs1 where
      1: "self1 = self\<lparr>results := results self @ fs1\<rparr>" by blast
    from Cons.IH[OF r] obtain fs2 where 2: "self' = self1\<lparr>results := results self1 @ fs2\<rparr>"
      by blast
    have "self' = self\<lparr>results := results self @ (fs1 @ fs2)\<rparr>" by (simp add: 1 2)
    then show ?thesis by blast
  qed
qed

lemma process_pdfs_skip:
  assumes "\<not> fst (download_pdf (env_net env) info
                  (os_path_join (base_dir self) [ckey, bucket, filename info]) w)"
  shows "process_pdfs env ckey bucket cname (info # rest) self w =
         process_pdfs env ckey bucket cname rest self
           (snd (download_pdf (env_net env) info
                   (os_path_join (base_dir self) [ckey, bucket, filename info]) w))"
  using assms
  by (cases "download_pdf (env_net env) info
                  (os_path_join (base_dir self) [ckey, bucket, filename info]) w") simp

lemma extract_pdf_links_failed:
  "fst (get_page_with_retry (env_net env) u 3 w) = None \<Longrightarrow> fst (extract_pdf_links env u w) = []"
  by (cases "get_page_with_retry (env_net env) u 3 w") (simp add: extract_pdf_links_def)

text \<open>
  Claim C8, as amended. When no attempt is answered with status 200,
  \<open>get_page_with_retry\<close> returns \<open>None\<close>, which carries neither the URL nor a status, and
  \<open>extract_pdf_links\<close> then yields no document. A document whose \<open>download_pdf\<close> returns
  \<open>False\<close> is passed over: the coordinator goes on with the next document, with the
  miner as it was. Whatever the documents, a loop of \<open>process_committee\<close> changes nothing
  of the miner but the list of findings, to which it appends: there is no skip list.
\<close>

theorem fetch_failure_is_skipped_without_record:
  "(never_200 (env_net env) u w 3 \<longrightarrow>
      fst (get_page_with_retry (env_net env) u 3 w) = None \<and> fst (extract_pdf_links env u w) = [])
   \<and> (\<not> fst (download_pdf (env_net env) info
               (os_path_join (base_dir self) [ckey, bucket, filename info]) w) \<longrightarrow>
        process_pdfs env ckey bucket cname (info # rest) self w =
        process_pdfs env ckey bucket cname rest self
          (snd (download_pdf (env_net env) info
                  (os_path_join (base_dir self) [ckey, bucket, filename info]) w)))
   \<and> (\<forall>self' w'. process_pdfs env ckey bucket cname pdfs self w = Inr (self', w') \<longrightarrow>
        (\<exists>fs. self' = self\<lparr>results := results self @ fs\<rparr>))"
proof (intro conjI impI allI)
  assume n: "never_200 (env_net env) u w 3"
  show g: "fst (get_page_with_retry (env_net env) u 3 w) = None"
    using n retry_loop_never[of "env_net env" w u "[0..<3]" 3]
    by (simp add: get_page_with_retry_def never_200_def)
  show "fst (extract_pdf_links env u w) = []"
    by (rule extract_pdf_links_failed[OF g])
next
  assume "\<not> fst (download_pdf (env_net env) info
               (os_path_join (base_dir self) [ckey, bucket, filename info]) w)"
  then show "process_pdfs env ckey bucket cname (info # rest) self w =
        process_pdfs env ckey bucket cname rest self
          (snd (download_pdf (env_net env) info
                  (os_path_join (base_dir self) [ckey, bucket, filename info]) w))"
    by (rule process_pdfs_skip)
next
  fix self' w'
  assume "process_pdfs env ckey bucket cname pdfs self w = Inr (self', w')"
  then show "\<exists>fs. self' = self\<lparr>results := results self @ fs\<rparr>"
    by (rule process_pdfs_results)
qed

text \<open>
  A run on two documents, the first refused with an error status \<open>s\<close>, the second served:
  the miner ends with the findings of the second document.
\<close>

lemma process_pdfs_Cons:
  "process_pdfs env ckey bucket cname (info # rest) self w =
     (if fst (download_pdf (env_net env) info
                (os_path_join (base_dir self) [ckey, bucket, filename info]) w)
      then (case scan_pages (env_regex env) self info cname
                  (fst (fixed_extract_text_from_pdf (env_has_pdfplumber env)
                     (env_read_pdf env
                        (files (snd (download_pdf (env_net env) info
                           (os_path_join (base_dir self) [ckey, bucket, filename info]) w))
                           (os_path_join (base_dir self) [ckey, bucket, filename info]))))) of
              Inl e \<Rightarrow> Inl e
            | Inr self' \<Rightarrow> process_pdfs env ckey bucket cname rest self'
                (snd (download_pdf (env_net env) info
                   (os_path_join (base_dir self) [ckey, bucket, filename info]) w)))
      else process_pdfs env ckey bucket cname rest self
             (snd (download_pdf (env_net env) info
                (os_path_join (base_dir self) [ckey, bucket, filename info]) w)))"
  by (cases "download_pdf (env_net env) info
                (os_path_join (base_dir self) [ckey, bucket, filename info]) w")
     (auto split: sum.splits)

lemma example_path_eq:
  "os_path_join (base_dir example_miner) [str_of ''highway'', str_of ''current'', filename example_info]
     = example_path"
  by (simp add: os_path_join_def path_join2_def example_miner_def init_miner_def example_info_def
      example_path_def str_of_def)

lemma refused_download:
  assumes "400 \<le> s" and "s < 600" and "files w p = None"
  shows "\<not> fst (download_pdf (partial_net s) refused_info p w)"
    and "files (snd (download_pdf (partial_net s) refused_info p w)) = files w"
    and "can_open (snd (download_pdf (partial_net s) refused_info p w)) = can_open w"
  using assms
  by (simp_all add: download_pdf_def download_with_def session_get_def partial_net_def
      raise_for_status_def error_response_def emit_def refused_info_def
      example_info_def str_of_def)

lemma served_download:
  "files w example_path = None \<Longrightarrow> can_open w example_path \<Longrightarrow>
   fst (download_pdf (partial_net s) example_info example_path w)"
  by (simp add: download_pdf_def download_with_def session_get_def partial_net_def
      raise_for_status_def pdf_response_def emit_def save_response_def)

lemma minutes_pages:
  "fst (fixed_extract_text_from_pdf True minutes_file) = [(1, minutes_page)]"
  by (simp add: fixed_extract_text_from_pdf_def minutes_file_def retain_def minutes_page_def
      str_of_def strip_def isspace_def)

lemma minutes_finds:
  "finds literal_engine (str_of ''Hamm'') minutes_page = [(50, 54)]"
  "finds literal_engine (str_of ''hamm'') minutes_page = [(50, 54)]"
  "finds literal_engine (str_of ''ethics training'') minutes_page = []"
  by (simp_all add: literal_engine_def lower_def minutes_page_def str_of_def)

lemma example_patterns_compile:
  "compiles literal_engine (str_of ''Hamm'')"
  "compiles literal_engine (str_of ''hamm'')"
  "compiles literal_engine (str_of ''ethics training'')"
  by (simp_all add: literal_engine_def plain_char_def str_of_def)

lemma minutes_findings:
  "search_keywords_in_text literal_engine example_miner minutes_page 1
     example_info (str_of ''Highway'') =
   Inr example_findings"
  by (simp add: example_findings_def search_keywords_in_text_def scan_tiers_eq all_compile_def example_miner_def
      init_miner_def example_catalog_def minutes_finds example_patterns_compile
      del: One_nat_def)

lemma example_run:
  assumes "400 \<le> s" and "s < 600"
  shows "\<exists>w'. process_pdfs (example_env s) (str_of ''highway'') (str_of ''current'')
           (str_of ''Highway'') [refused_info, example_info] example_miner empty_world =
    Inr (example_miner\<lparr>results := example_findings\<rparr>, w')"
proof -
  let ?p1 = "os_path_join (base_dir example_miner)
               [str_of ''highway'', str_of ''current'', filename refused_info]"
  let ?w1 = "snd (download_pdf (partial_net s) refused_info ?p1 empty_world)"
  have e: "files empty_world ?p1 = None" by (simp add: empty_world_def)
  have f: "files ?w1 example_path = None" "can_open ?w1 example_path"
    using refused_download(2,3)[OF assms e] by (simp_all add: empty_world_def)
  have r: "results example_miner = []" by (simp add: example_miner_def init_miner_def)
  have env: "env_net (example_env s) = partial_net s" "env_regex (example_env s) = literal_engine"
    "env_has_pdfplumber (example_env s) = True" "env_read_pdf (example_env s) c = minutes_file" for c
    by (simp_all add: example_env_def)
  have scan: "scan_pages literal_engine example_miner example_info (str_of ''Highway'')
       [(1, minutes_page)] = Inr (example_miner\<lparr>results := example_findings\<rparr>)"
    by (simp add: minutes_findings r del: One_nat_def)
  show ?thesis
    unfolding process_pdfs_Cons env example_path_eq minutes_pages
    using refused_download(1)[OF assms e] served_download[OF f] scan
    by (simp del: One_nat_def)
qed

lemma server_error_never: "never_200 server_error_net listing_url empty_world 3"
  by (simp add: never_200_def server_error_net_def answers_200_def error_response_def upt_rec)

lemma partial_never: "never_200 (env_net (example_env 403)) listing_url empty_world 3"
  by (simp add: never_200_def example_env_def partial_net_def answers_200_def error_response_def
      upt_rec listing_url_def example_info_def str_of_def)

lemma never_200_None:
  "never_200 net u w 3 \<Longrightarrow> fst (get_page_with_retry net u 3 w) = None"
  using retry_loop_never[of net w u "[0..<3]" 3]
  by (simp add: get_page_with_retry_def never_200_def)

text \<open>
  Against claim C8 as stated: after three refusals the result is \<open>None\<close>, the same for a
  server that answers 403 and for one that answers 500, so it carries no status; and a
  run in which the first document is refused ends with the same miner whether the
  refusal was a 403 or a 500: the findings of the second document, and nothing about
  the first.
\<close>

theorem fetch_failure_leaves_no_status:
  "fst (get_page_with_retry forbidden_net listing_url 3 empty_world) = None
   \<and> fst (get_page_with_retry server_error_net listing_url 3 empty_world) = None
   \<and> map_sum id fst
        (process_pdfs (example_env 403) (str_of ''highway'') (str_of ''current'')
           (str_of ''Highway'') [refused_info, example_info] example_miner empty_world) =
      map_sum id fst
        (process_pdfs (example_env 500) (str_of ''highway'') (str_of ''current'')
           (str_of ''Highway'') [refused_info, example_info] example_miner empty_world)
   \<and> map_sum id (map f_url \<circ> results \<circ> fst)
        (process_pdfs (example_env 403) (str_of ''highway'') (str_of ''current'')
           (str_of ''Highway'') [refused_info, example_info] example_miner empty_world) =
      Inr [url example_info, url example_info]
   \<and> map_sum id (pdf_cache \<circ> fst)
        (process_pdfs (example_env 403) (str_of ''highway'') (str_of ''current'')
           (str_of ''Highway'') [refused_info, example_info] example_miner empty_world) = Inr []"
proof -
  have a: "(400::nat) \<le> 403" "(403::nat) < 600" "(400::nat) \<le> 500" "(500::nat) < 600" by simp_all
  from example_run[OF a(1,2)] obtain w1 where
    1: "process_pdfs (example_env 403) (str_of ''highway'') (str_of ''current'')
           (str_of ''Highway'') [refused_info, example_info] example_miner empty_world =
        Inr (example_miner\<lparr>results := example_findings\<rparr>, w1)" by blast
  from example_run[OF a(3,4)] obtain w2 where
    2: "process_pdfs (example_env 500) (str_of ''highway'') (str_of ''current'')
           (str_of ''Highway'') [refused_info, example_info] example_miner empty_world =
        Inr (example_miner\<lparr>results := example_findings\<rparr>, w2)" by blast
  have 3: "map f_url example_findings = [url example_info, url example_info]"
    by (simp add: example_findings_def new_match_def)
  have 4: "pdf_cache example_miner = []" by (simp add: example_miner_def init_miner_def)
  show ?thesis
    unfolding 1 2
    using never_200_None[OF forbidden_never] never_200_None[OF server_error_never] 3 4
    by simp
qed

theorem fetch_failure_is_skipped_without_record_witness:
  "never_200 (env_net (example_env 403)) listing_url empty_world 3
   \<and> fst (extract_pdf_links (example_env 403) listing_url empty_world) = []
   \<and> \<not> fst (download_pdf (env_net (example_env 403)) refused_info
             (os_path_join (base_dir example_miner)
                [str_of ''highway'', str_of ''current'', filename refused_info]) empty_world)
   \<and> process_pdfs (example_env 403) (str_of ''highway'') (str_of ''current'') (str_of ''Highway'')
        [refused_info, example_info] example_miner empty_world =
      process_pdfs (example_env 403) (str_of ''highway'') (str_of ''current'') (str_of ''Highway'')
        [example_info] example_miner
        (snd (download_pdf (env_net (example_env 403)) refused_info
                (os_path_join (base_dir example_miner)
                   [str_of ''highway'', str_of ''current'', filename refused_info]) empty_world))
   \<and> (\<exists>fs w'. process_pdfs (example_env 403) (str_of ''highway'') (str_of ''current'')
          (str_of ''Highway'') [refused_info, example_info] example_miner empty_world =
        Inr (example_miner\<lparr>results := results example_miner @ fs\<rparr>, w'))"
proof -
  have a: "(400::nat) \<le> 403" "(403::nat) < 600" by simp_all
  have e: "files empty_world p = None" for p by (simp add: empty_world_def)
  have d: "\<not> fst (download_pdf (env_net (example_env 403)) refused_info
             (os_path_join (base_dir example_miner)
                [str_of ''highway'', str_of ''current'', filename refused_info]) empty_world)"
    using refused_download(1)[OF a e] by (simp add: example_env_def)
  from example_run[OF a] obtain w1 where
    1: "process_pdfs (example_env 403) (str_of ''highway'') (str_of ''current'')
           (str_of ''Highway'') [refused_info, example_info] example_miner empty_world =
        Inr (example_miner\<lparr>results := example_findings\<rparr>, w1)" by blast
  note T = fetch_failure_is_skipped_without_record[of "example_env 403" listing_url empty_world
      refused_info example_miner "str_of ''highway''" "str_of ''current''" "str_of ''Highway''"
      "[example_info]" "[refused_info, example_info]"]
  have c1: "fst (extract_pdf_links (example_env 403) listing_url empty_world) = []"
    using T partial_never by blast
  have c2: "process_pdfs (example_env 403) (str_of ''highway'') (str_of ''current'') (str_of ''Highway'')
        [refused_info, example_info] example_miner empty_world =
      process_pdfs (example_env 403) (str_of ''highway'') (str_of ''current'') (str_of ''Highway'')
        [example_info] example_miner
        (snd (download_pdf (env_net (example_env 403)) refused_info
                (os_path_join (base_dir example_miner)
                   [str_of ''highway'', str_of ''current'', filename refused_info]) empty_world))"
    using T d by blast
  have "\<exists>fs. example_miner\<lparr>results := example_findings\<rparr> =
      example_miner\<lparr>results := results example_miner @ fs\<rparr>"
    using T 1 by blast
  then obtain fs where "example_miner\<lparr>results := example_findings\<rparr> =
      example_miner\<lparr>results := results example_miner @ fs\<rparr>" by blast
  then have c3: "\<exists>fs w'. process_pdfs (example_env 403) (str_of ''highway'') (str_of ''current'')
          (str_of ''Highway'') [refused_info, example_info] example_miner empty_world =
        Inr (example_miner\<lparr>results := results example_miner @ fs\<rparr>, w')"
    using 1 by metis
  show ?thesis using partial_never c1 d c2 c3 by blast
qed

end
